(* ===== verification/OJLS_Prelude.thy ===== *)
theory OJLS_Prelude
  imports Main "HOL-Library.Word" "HOL-Library.Monad_Syntax"
begin

text \<open>
  What every theory of the development shares: the machine integer types, the C loop
  combinator with its two proof rules (partial correctness, termination by a measure),
  the generic lemmas on words and lists, and the collections of facts that the component
  theories extend.
\<close>

unbundle bit_operations_syntax

section \<open>Machine integers\<close>

text \<open>
  The integers of \<open>stdint.h\<close> keep their width. The server is built for the 32-bit ARM of
  the PYNQ-Z2 (\<open>arm-linux-gnueabihf\<close>), so \<open>size_t\<close>, \<open>unsigned long\<close> and pointers of the
  board programs are 32 bits wide. A C \<open>int\<close> that only carries a result code or a file
  descriptor is an HOL \<open>int\<close>.
\<close>

type_synonym u8 = "8 word"
type_synonym u16 = "16 word"
type_synonym u32 = "32 word"
type_synonym u64 = "64 word"
type_synonym size_t = "32 word"
type_synonym addr = "32 word"

section \<open>Collections\<close>

named_theorems consts_defs \<open>the macro constants of the headers\<close>
named_theorems log_simps \<open>how each primitive reads and extends the history\<close>
named_theorems emits_intros \<open>the footprint of an operation with a result, continued\<close>
named_theorems emits_steps \<open>the footprint of an operation without a result, continued\<close>

section \<open>Words\<close>

lemma ucast_and_255: "(ucast (v AND 0xFF) :: u8) = ucast (v :: 'a::len word)"
proof -
  have "v AND 0xFF = take_bit 8 v" by (simp add: take_bit_eq_mask mask_eq_exp_minus_1)
  then show ?thesis
    by (auto intro!: bit_word_eqI simp: bit_simps dest: bit_imp_le_length)
qed

lemma not_bit_u8: "8 \<le> n \<Longrightarrow> \<not> bit (a :: u8) n"
  using bit_imp_le_length [of a n] by auto

text \<open>A little-endian 16- or 32-bit word is what its bytes spell.\<close>

lemma word16_bytes:
  fixes v :: u16
  shows "ucast (ucast v :: u8) OR push_bit 8 (ucast (ucast (drop_bit 8 v) :: u8)) = v"
proof (rule bit_word_eqI)
  fix n
  assume "n < LENGTH(16)"
  then show "bit (ucast (ucast v :: u8) OR push_bit 8 (ucast (ucast (drop_bit 8 v) :: u8)) :: u16) n = bit v n"
    by (cases "n < 8") (auto simp: bit_simps)
qed

lemma word32_bytes:
  fixes v :: u32
  shows "ucast (ucast v :: u8) OR push_bit 8 (ucast (ucast (drop_bit 8 v) :: u8))
     OR push_bit 16 (ucast (ucast (drop_bit 16 v) :: u8))
     OR push_bit 24 (ucast (ucast (drop_bit 24 v) :: u8)) = v"
proof (rule bit_word_eqI)
  fix n
  assume "n < LENGTH(32)"
  then show "bit (ucast (ucast v :: u8) OR push_bit 8 (ucast (ucast (drop_bit 8 v) :: u8))
     OR push_bit 16 (ucast (ucast (drop_bit 16 v) :: u8))
     OR push_bit 24 (ucast (ucast (drop_bit 24 v) :: u8)) :: u32) n = bit v n"
    by (cases "n < 8"; cases "n < 16"; cases "n < 24") (auto simp: bit_simps)
qed

lemma bytes_word16:
  fixes a b :: u8
  defines "v \<equiv> ucast a OR push_bit 8 (ucast b) :: u16"
  shows "ucast v = a" and "ucast (drop_bit 8 v) = b"
  unfolding v_def by (auto intro!: bit_word_eqI simp: bit_simps not_bit_u8)

lemma bytes_word32:
  fixes a b c d :: u8
  defines "v \<equiv> ucast a OR push_bit 8 (ucast b) OR push_bit 16 (ucast c) OR push_bit 24 (ucast d) :: u32"
  shows "ucast v = a" and "ucast (drop_bit 8 v) = b"
    and "ucast (drop_bit 16 v) = c" and "ucast (drop_bit 24 v) = d"
  unfolding v_def by (auto intro!: bit_word_eqI simp: bit_simps not_bit_u8)

text \<open>Widening casts keep the value; a word is below its power of two.\<close>

lemma unat_u32_less: "unat (x :: u32) < 2 ^ 32"
  using unsigned_less [of x, where ?'a = nat] by simp

lemma unat_u64_less: "unat (x :: u64) < 2 ^ 64"
  using unsigned_less [of x, where ?'a = nat] by simp

lemma unat_u16_less: "unat (x :: u16) < 2 ^ 16"
  using unsigned_less [of x, where ?'a = nat] by simp

lemma unat_widen:
  "unat (ucast (x :: u32) :: u64) = unat x" "unat (ucast (y :: u16) :: u32) = unat y"
  "unat (ucast (z :: u8) :: u32) = unat z" "unat (ucast (z :: u8) :: u64) = unat z"
proof -
  have "unat x < 2 ^ 64" "unat y < 2 ^ 32" "unat z < 2 ^ 32" "unat z < 2 ^ 64"
    using unsigned_less [of x, where ?'a = nat] unsigned_less [of y, where ?'a = nat]
      unsigned_less [of z, where ?'a = nat] by simp_all
  then show "unat (ucast (x :: u32) :: u64) = unat x" "unat (ucast (y :: u16) :: u32) = unat y"
    "unat (ucast (z :: u8) :: u32) = unat z" "unat (ucast (z :: u8) :: u64) = unat z"
    by (simp_all add: unsigned_ucast_eq take_bit_nat_eq_self)
qed

lemma unat_of_nat_small:
  "n < 2 ^ 32 \<Longrightarrow> unat (of_nat n :: u32) = n" "n < 2 ^ 64 \<Longrightarrow> unat (of_nat n :: u64) = n"
  by (simp_all add: unsigned_of_nat take_bit_nat_eq_self)

section \<open>C loops\<close>

text \<open>
  A C loop runs a body over its local state \<open>s\<close> and the world \<open>w\<close>. The body either goes on
  (\<open>Inl\<close> of the next local state) or leaves the loop (\<open>Inr\<close> of a result, for \<open>break\<close>,
  \<open>return\<close> and a failed guard alike). \<open>None\<close> is a loop that never leaves.
\<close>

partial_function (option) c_loop ::
  "('s \<Rightarrow> 'w \<Rightarrow> (('s + 'a) \<times> 'w) option) \<Rightarrow> 's \<Rightarrow> 'w \<Rightarrow> ('a \<times> 'w) option" where
  "c_loop body s w =
     (case body s w of
        None \<Rightarrow> None
      | Some (r, w1) \<Rightarrow> (case r of Inl s1 \<Rightarrow> c_loop body s1 w1 | Inr a \<Rightarrow> Some (a, w1)))"

declare c_loop.simps [code]

lemma c_loop_Inl: "body s w = Some (Inl s1, w1) \<Longrightarrow> c_loop body s w = c_loop body s1 w1"
  by (simp add: c_loop.simps)

lemma c_loop_Inr: "body s w = Some (Inr a, w1) \<Longrightarrow> c_loop body s w = Some (a, w1)"
  by (simp add: c_loop.simps)

text \<open>Partial correctness: an invariant that the body keeps holds where the loop leaves.\<close>

lemma c_loop_inv:
  assumes ret: "c_loop body s w = Some (a, w')"
    and start: "I s w"
    and step: "\<And>s w s1 w1. I s w \<Longrightarrow> body s w = Some (Inl s1, w1) \<Longrightarrow> I s1 w1"
    and exit: "\<And>s w a w1. I s w \<Longrightarrow> body s w = Some (Inr a, w1) \<Longrightarrow> Q a w1"
  shows "Q a w'"
proof -
  have "b = body \<longrightarrow> I s w \<longrightarrow> Q (fst r) (snd r)" if "c_loop b s w = Some r" for b s w r
  proof (rule c_loop.raw_induct
      [where P = "\<lambda>b s w r. b = body \<longrightarrow> I s w \<longrightarrow> Q (fst r) (snd r)", OF _ that])
    fix f b s w r
    assume IH: "\<And>b s w r. f b s w = Some r \<Longrightarrow> b = body \<longrightarrow> I s w \<longrightarrow> Q (fst r) (snd r)"
      and eq: "(case b s w of None \<Rightarrow> None
        | Some (r, w1) \<Rightarrow> (case r of Inl s1 \<Rightarrow> f b s1 w1 | Inr a \<Rightarrow> Some (a, w1))) = Some r"
    show "b = body \<longrightarrow> I s w \<longrightarrow> Q (fst r) (snd r)"
      using eq IH step exit by (fastforce split: option.splits sum.splits)
  qed
  from this [OF ret] start show ?thesis by simp
qed

text \<open>\<open>returns m\<close>: the computation comes to a result.\<close>

definition returns :: "'a option \<Rightarrow> bool" where
  "returns m \<longleftrightarrow> m \<noteq> None"

lemma returns_simps [simp]:
  "returns (Some x)" "\<not> returns None"
  "returns (Option.bind m f) \<longleftrightarrow> returns m \<and> (\<forall>x. m = Some x \<longrightarrow> returns (f x))"
  by (cases m; auto simp: returns_def)+

lemma returns_ex: "returns m \<longleftrightarrow> (\<exists>x. m = Some x)"
  by (auto simp: returns_def)

text \<open>Termination: the body always returns and each further round decreases a measure.\<close>

lemma c_loop_total:
  fixes m :: "'s \<Rightarrow> 'w \<Rightarrow> nat"
  assumes start: "I s w"
    and total: "\<And>s w. I s w \<Longrightarrow> returns (body s w)"
    and step: "\<And>s w s1 w1. I s w \<Longrightarrow> body s w = Some (Inl s1, w1) \<Longrightarrow> I s1 w1 \<and> m s1 w1 < m s w"
  shows "returns (c_loop body s w)"
  using start
proof (induction "m s w" arbitrary: s w rule: less_induct)
  case less
  from total [OF less.prems] obtain r w1 where b: "body s w = Some (r, w1)"
    by (auto simp: returns_ex)
  show ?case
  proof (cases r)
    case (Inl s1)
    with b less step [of s w s1 w1] show ?thesis by (auto simp: c_loop_Inl)
  next
    case (Inr a)
    with b show ?thesis by (auto simp: c_loop_Inr)
  qed
qed

end
