(* ===== verification/OJLS_Env.thy ===== *)
theory OJLS_Env
  imports OJLS_Prelude
begin

text \<open>
  The world the programs run in. Everything outside \<open>src/\<close> (the kernel, the two DMA-attached
  drivers, the FPGA, the peer on the socket, the clock) is one record \<open>env\<close> of answers: the
  answer to a call is an arbitrary function of the whole history of events before it. A
  theorem about all environments therefore covers every schedule of the hardware and every
  behaviour of the peer. The primitives below are the calls the code makes; each logs one
  event, and that event is all it does.
\<close>

unbundle bit_operations_syntax

section \<open>Answers and events\<close>

text \<open>
  \<open>read(2)\<close>: some bytes (none at end of file), an interrupted call, or another error.
  \<open>write(2)\<close>: how many bytes were taken, an interrupted call, or another error.
\<close>

datatype rres = RData "u8 list" | REintr | RError
datatype wres = WCount nat | WEintr | WError
datatype pres = PReady | PTimeout | PEintr | PError
datatype ares = AConn int | AEintr | AError

text \<open>
  One event per call. Reads of a socket into DMA memory carry the target address; stores and
  loads of DMA memory are of 32-bit words, the unit the descriptors are made of.
\<close>

datatype event =
    EvClock int int
  | EvSleep int
  | EvRead int "addr option" nat rres
  | EvWrite int "u8 list" wres
  | EvPoll int int pres
  | EvRegRead addr u32
  | EvRegWrite addr u32
  | EvLoad addr u32
  | EvStore addr "u32 list"
  | EvOpen string int
  | EvClose int
  | EvMmap int size_t addr
  | EvMunmap addr size_t
  | EvFopen string string bool
  | EvFgets string "string option"
  | EvFprintf string size_t bool
  | EvFclose string bool
  | EvListdir string "string list option"
  | EvMalloc nat bool
  | EvFree
  | EvSocket int
  | EvListen int u16 bool
  | EvAccept ares
  | EvResolve string int "nat option"
  | EvConnect int nat bool
  | EvFwrite string "u8 list" nat
  | EvStop bool

record env =
  env_clock :: "event list \<Rightarrow> int \<times> int"
  env_read :: "event list \<Rightarrow> int \<Rightarrow> nat \<Rightarrow> rres"
  env_write :: "event list \<Rightarrow> int \<Rightarrow> u8 list \<Rightarrow> wres"
  env_poll :: "event list \<Rightarrow> int \<Rightarrow> int \<Rightarrow> pres"
  env_reg :: "event list \<Rightarrow> addr \<Rightarrow> u32"
  env_word :: "event list \<Rightarrow> addr \<Rightarrow> u32"
  env_byte :: "event list \<Rightarrow> addr \<Rightarrow> u8"
  env_open :: "event list \<Rightarrow> string \<Rightarrow> int"
  env_mmap :: "event list \<Rightarrow> int \<Rightarrow> size_t \<Rightarrow> addr"
  env_fopen :: "event list \<Rightarrow> string \<Rightarrow> string \<Rightarrow> bool"
  env_fgets :: "event list \<Rightarrow> string \<Rightarrow> string option"
  env_fprintf :: "event list \<Rightarrow> string \<Rightarrow> bool"
  env_fclose :: "event list \<Rightarrow> string \<Rightarrow> bool"
  env_listdir :: "event list \<Rightarrow> string \<Rightarrow> string list option"
  env_malloc :: "event list \<Rightarrow> nat \<Rightarrow> bool"
  env_socket :: "event list \<Rightarrow> int"
  env_listen :: "event list \<Rightarrow> int \<Rightarrow> u16 \<Rightarrow> bool"
  env_accept :: "event list \<Rightarrow> ares"
  env_resolve :: "event list \<Rightarrow> string \<Rightarrow> int \<Rightarrow> nat option"
  env_connect :: "event list \<Rightarrow> int \<Rightarrow> nat \<Rightarrow> bool"
  env_file :: "event list \<Rightarrow> string \<Rightarrow> u8 list"
  env_fwrite :: "event list \<Rightarrow> string \<Rightarrow> u8 list \<Rightarrow> nat"
  env_stop :: "event list \<Rightarrow> bool"

text \<open>The history is kept newest event first; \<open>trace\<close> reads it in the order of time.\<close>

record world =
  world_env :: env
  hist :: "event list"

type_synonym 'a io = "world \<Rightarrow> ('a \<times> world) option"

definition log :: "event \<Rightarrow> world \<Rightarrow> world" where
  "log e w = w\<lparr>hist := e # hist w\<rparr>"

definition trace :: "world \<Rightarrow> event list" where
  "trace w = rev (hist w)"

lemma log_hist [simp]: "hist (log e w) = e # hist w"
  by (simp add: log_def)

lemma log_env [simp]: "world_env (log e w) = world_env w"
  by (simp add: log_def)

section \<open>The calls\<close>

text \<open>
  POSIX bounds the count of a short read or write by the size asked for; the answers of the
  environment are clipped to it.
\<close>

definition sys_clock :: "world \<Rightarrow> (int \<times> int) \<times> world" where
  "sys_clock w = (let t = env_clock (world_env w) (hist w) in (t, log (EvClock (fst t) (snd t)) w))"

definition sys_nanosleep :: "int \<Rightarrow> world \<Rightarrow> world" where
  "sys_nanosleep ns w = log (EvSleep ns) w"

definition clip_read :: "nat \<Rightarrow> rres \<Rightarrow> rres" where
  "clip_read n r = (case r of RData bs \<Rightarrow> RData (take n bs) | _ \<Rightarrow> r)"

definition clip_write :: "nat \<Rightarrow> wres \<Rightarrow> wres" where
  "clip_write n r = (case r of WCount k \<Rightarrow> WCount (min k n) | _ \<Rightarrow> r)"

definition sys_read :: "int \<Rightarrow> addr option \<Rightarrow> nat \<Rightarrow> world \<Rightarrow> rres \<times> world" where
  "sys_read fd dst n w =
     (let r = clip_read n (env_read (world_env w) (hist w) fd n) in (r, log (EvRead fd dst n r) w))"

definition sys_write :: "int \<Rightarrow> u8 list \<Rightarrow> world \<Rightarrow> wres \<times> world" where
  "sys_write fd bs w =
     (let r = clip_write (length bs) (env_write (world_env w) (hist w) fd bs)
      in (r, log (EvWrite fd bs r) w))"

definition sys_poll :: "int \<Rightarrow> int \<Rightarrow> world \<Rightarrow> pres \<times> world" where
  "sys_poll fd ms w = (let r = env_poll (world_env w) (hist w) fd ms in (r, log (EvPoll fd ms r) w))"

text \<open>A load or store of a device register, through the \<open>volatile\<close> mapping of a UIO device.\<close>

definition reg_load :: "addr \<Rightarrow> world \<Rightarrow> u32 \<times> world" where
  "reg_load a w = (let v = env_reg (world_env w) (hist w) a in (v, log (EvRegRead a v) w))"

definition reg_store :: "addr \<Rightarrow> u32 \<Rightarrow> world \<Rightarrow> world" where
  "reg_store a v w = log (EvRegWrite a v) w"

text \<open>
  Memory of the DMA buffers is shared with the hardware: a word loaded from it is whatever the
  environment says is there. \<open>mem_bytes\<close> is what the kernel finds when it copies \<open>n\<close> bytes out.
\<close>

definition mem_load :: "addr \<Rightarrow> world \<Rightarrow> u32 \<times> world" where
  "mem_load a w = (let v = env_word (world_env w) (hist w) a in (v, log (EvLoad a v) w))"

definition mem_store :: "addr \<Rightarrow> u32 list \<Rightarrow> world \<Rightarrow> world" where
  "mem_store a vs w = log (EvStore a vs) w"

definition mem_bytes :: "addr \<Rightarrow> nat \<Rightarrow> world \<Rightarrow> u8 list" where
  "mem_bytes a n w = map (\<lambda>i. env_byte (world_env w) (hist w) (a + of_nat i)) [0..<n]"

definition sys_open :: "string \<Rightarrow> world \<Rightarrow> int \<times> world" where
  "sys_open path w = (let fd = env_open (world_env w) (hist w) path in (fd, log (EvOpen path fd) w))"

definition sys_close :: "int \<Rightarrow> world \<Rightarrow> world" where
  "sys_close fd w = log (EvClose fd) w"

definition sys_mmap :: "int \<Rightarrow> size_t \<Rightarrow> world \<Rightarrow> addr \<times> world" where
  "sys_mmap fd n w = (let a = env_mmap (world_env w) (hist w) fd n in (a, log (EvMmap fd n a) w))"

definition sys_munmap :: "addr \<Rightarrow> size_t \<Rightarrow> world \<Rightarrow> world" where
  "sys_munmap a n w = log (EvMunmap a n) w"

definition sys_fopen :: "string \<Rightarrow> string \<Rightarrow> world \<Rightarrow> bool \<times> world" where
  "sys_fopen path mode w =
     (let ok = env_fopen (world_env w) (hist w) path mode in (ok, log (EvFopen path mode ok) w))"

definition sys_fgets :: "string \<Rightarrow> world \<Rightarrow> string option \<times> world" where
  "sys_fgets path w = (let r = env_fgets (world_env w) (hist w) path in (r, log (EvFgets path r) w))"

definition sys_fprintf_lu :: "string \<Rightarrow> size_t \<Rightarrow> world \<Rightarrow> bool \<times> world" where
  "sys_fprintf_lu path v w =
     (let ok = env_fprintf (world_env w) (hist w) path in (ok, log (EvFprintf path v ok) w))"

definition sys_fclose :: "string \<Rightarrow> world \<Rightarrow> bool \<times> world" where
  "sys_fclose path w = (let ok = env_fclose (world_env w) (hist w) path in (ok, log (EvFclose path ok) w))"

definition sys_listdir :: "string \<Rightarrow> world \<Rightarrow> string list option \<times> world" where
  "sys_listdir path w =
     (let r = env_listdir (world_env w) (hist w) path in (r, log (EvListdir path r) w))"

definition sys_malloc :: "nat \<Rightarrow> world \<Rightarrow> bool \<times> world" where
  "sys_malloc n w = (let ok = env_malloc (world_env w) (hist w) n in (ok, log (EvMalloc n ok) w))"

text \<open>\<open>calloc\<close> also fails when the product does not fit a \<open>size_t\<close>.\<close>

definition sys_calloc :: "size_t \<Rightarrow> size_t \<Rightarrow> world \<Rightarrow> bool \<times> world" where
  "sys_calloc n sz w =
     (let bytes = unat n * unat sz;
          ok = (bytes < 2 ^ 32 \<and> env_malloc (world_env w) (hist w) bytes)
      in (ok, log (EvMalloc bytes ok) w))"

definition sys_free :: "world \<Rightarrow> world" where
  "sys_free w = log EvFree w"

text \<open>
  Sockets: \<open>socket(2)\<close>; \<open>bind(2)\<close> and \<open>listen(2)\<close> on a port; \<open>accept(2)\<close>; \<open>getaddrinfo\<close>, which
  gives a number of addresses, and \<open>connect(2)\<close> to one of them.
\<close>

definition sys_socket :: "world \<Rightarrow> int \<times> world" where
  "sys_socket w = (let fd = env_socket (world_env w) (hist w) in (fd, log (EvSocket fd) w))"

definition sys_listen :: "int \<Rightarrow> u16 \<Rightarrow> world \<Rightarrow> bool \<times> world" where
  "sys_listen fd port w =
     (let ok = env_listen (world_env w) (hist w) fd port in (ok, log (EvListen fd port ok) w))"

definition sys_accept :: "world \<Rightarrow> ares \<times> world" where
  "sys_accept w = (let r = env_accept (world_env w) (hist w) in (r, log (EvAccept r) w))"

definition sys_resolve :: "string \<Rightarrow> int \<Rightarrow> world \<Rightarrow> nat option \<times> world" where
  "sys_resolve host port w =
     (let r = env_resolve (world_env w) (hist w) host port in (r, log (EvResolve host port r) w))"

definition sys_connect :: "int \<Rightarrow> nat \<Rightarrow> world \<Rightarrow> bool \<times> world" where
  "sys_connect fd i w =
     (let ok = env_connect (world_env w) (hist w) fd i in (ok, log (EvConnect fd i ok) w))"

text \<open>
  Files: what a stream opened for reading holds, up to its end or the first error; and
  \<open>fwrite\<close>, with the number of bytes it took.
\<close>

definition sys_file :: "string \<Rightarrow> world \<Rightarrow> u8 list" where
  "sys_file path w = env_file (world_env w) (hist w) path"

definition sys_fwrite :: "string \<Rightarrow> u8 list \<Rightarrow> world \<Rightarrow> nat \<times> world" where
  "sys_fwrite path bs w =
     (let k = min (length bs) (env_fwrite (world_env w) (hist w) path bs)
      in (k, log (EvFwrite path bs k) w))"

text \<open>A look at the flag that the signal handler sets.\<close>

definition sys_stopped :: "world \<Rightarrow> bool \<times> world" where
  "sys_stopped w = (let b = env_stop (world_env w) (hist w) in (b, log (EvStop b) w))"

definition null_ptr :: addr where
  "null_ptr = 0"

definition map_failed :: addr where
  "map_failed = - 1"

lemmas sys_defs =
  sys_clock_def sys_nanosleep_def sys_read_def sys_write_def sys_poll_def reg_load_def
  reg_store_def mem_load_def mem_store_def sys_open_def sys_close_def sys_mmap_def
  sys_munmap_def sys_fopen_def sys_fgets_def sys_fprintf_lu_def sys_fclose_def
  sys_listdir_def sys_malloc_def sys_calloc_def sys_free_def sys_socket_def sys_listen_def
  sys_accept_def sys_resolve_def sys_connect_def sys_fwrite_def sys_stopped_def

section \<open>Sequencing\<close>

text \<open>\<open>io_of f\<close>: an operation that always returns. \<open>any_fails\<close>: C's \<open>a != 0 || b != 0 || ...\<close>.\<close>

definition io_of :: "(world \<Rightarrow> 'a \<times> world) \<Rightarrow> 'a io" where
  "io_of f w = Some (f w)"

fun any_fails :: "int io list \<Rightarrow> bool io" where
  "any_fails [] w = Some (False, w)"
| "any_fails (m # ms) w = do {
     (rc, w1) \<leftarrow> m w;
     if rc \<noteq> 0 then Some (True, w1) else any_fails ms w1
   }"

section \<open>What an operation appends to the history\<close>

text \<open>
  \<open>emits P w w'\<close>: the step from \<open>w\<close> to \<open>w'\<close> keeps the environment and only appends events
  that satisfy \<open>P\<close>. It is reflexive, transitive and monotone in \<open>P\<close>, so the footprint of a
  composed operation follows from those of its calls.
\<close>

definition emits :: "(event \<Rightarrow> bool) \<Rightarrow> world \<Rightarrow> world \<Rightarrow> bool" where
  "emits P w w' \<longleftrightarrow>
     world_env w' = world_env w \<and> (\<exists>es. hist w' = es @ hist w \<and> list_all P es)"

lemma emits_refl [simp, intro]: "emits P w w"
  by (simp add: emits_def)

lemma emits_trans [trans]:
  assumes "emits P w w1" and "emits P w1 w2"
  shows "emits P w w2"
  using assms unfolding emits_def by force

lemma emits_mono: "emits P w w' \<Longrightarrow> (\<And>e. P e \<Longrightarrow> Q e) \<Longrightarrow> emits Q w w'"
  unfolding emits_def by (auto simp: list_all_iff)

lemma emits_log: "emits P w w1 \<Longrightarrow> P e \<Longrightarrow> emits P w (log e w1)"
  unfolding emits_def by auto

lemma emits_env: "emits P w w' \<Longrightarrow> world_env w' = world_env w"
  by (simp add: emits_def)

lemma emits_length: "emits P w w' \<Longrightarrow> length (hist w) \<le> length (hist w')"
  by (auto simp: emits_def)

text \<open>A loop whose body has footprint \<open>P\<close> has footprint \<open>P\<close>.\<close>

lemma emits_loop:
  assumes "c_loop body s w = Some (a, w')"
    and "\<And>s w r w1. body s w = Some (r, w1) \<Longrightarrow> emits P w w1"
  shows "emits P w w'"
  using assms(1)
  by (rule c_loop_inv [where I = "\<lambda>_ w1. emits P w w1"]) (auto intro: assms(2) emits_trans)

lemma emits_io_of: "io_of f w = Some (r, w') \<Longrightarrow> (\<And>r w'. f w = (r, w') \<Longrightarrow> emits P w w') \<Longrightarrow> emits P w w'"
  by (simp add: io_of_def)

lemma emits_any_fails:
  assumes "any_fails ms w = Some (b, w')"
    and "\<And>m w r w'. m \<in> set ms \<Longrightarrow> m w = Some (r, w') \<Longrightarrow> emits P w w'"
  shows "emits P w w'"
  using assms
proof (induction ms arbitrary: w)
  case (Cons m ms)
  from Cons.prems(1) obtain rc w1 where m: "m w = Some (rc, w1)"
    and r: "(if rc \<noteq> 0 then Some (True, w1) else any_fails ms w1) = Some (b, w')"
    by (auto split: Option.bind_splits)
  from m have 1: "emits P w w1" by (intro Cons.prems(2) [of m]) simp_all
  show ?case
  proof (cases "rc = 0")
    case True
    with r have "any_fails ms w1 = Some (b, w')" by simp
    then have "emits P w1 w'" using Cons.IH Cons.prems(2) by (meson list.set_intros(2))
    with 1 show ?thesis by (rule emits_trans)
  next
    case False
    with r 1 show ?thesis by simp
  qed
qed simp

section \<open>The bytes of a connection\<close>

text \<open>
  The bytes the program has received from and successfully sent on a file descriptor, in
  order, read off the history.
\<close>

fun got_of :: "int \<Rightarrow> event \<Rightarrow> u8 list" where
  "got_of fd (EvRead f dst n (RData bs)) = (if f = fd then bs else [])"
| "got_of fd _ = []"

fun put_of :: "int \<Rightarrow> event \<Rightarrow> u8 list" where
  "put_of fd (EvWrite f bs (WCount k)) = (if f = fd then take k bs else [])"
| "put_of fd _ = []"

definition rcvd :: "int \<Rightarrow> world \<Rightarrow> u8 list" where
  "rcvd fd w = concat (map (got_of fd) (trace w))"

definition sent :: "int \<Rightarrow> world \<Rightarrow> u8 list" where
  "sent fd w = concat (map (put_of fd) (trace w))"

lemma rcvd_log [simp]: "rcvd fd (log e w) = rcvd fd w @ got_of fd e"
  by (simp add: rcvd_def trace_def)

lemma sent_log [simp]: "sent fd (log e w) = sent fd w @ put_of fd e"
  by (simp add: sent_def trace_def)

fun is_read :: "int \<Rightarrow> event \<Rightarrow> bool" where
  "is_read fd (EvRead f dst n r) = (f = fd)"
| "is_read fd _ = False"

fun is_write :: "int \<Rightarrow> event \<Rightarrow> bool" where
  "is_write fd (EvWrite f bs r) = (f = fd)"
| "is_write fd _ = False"

lemma got_of_quiet: "\<not> is_read fd e \<Longrightarrow> got_of fd e = []"
  by (cases "(fd, e)" rule: got_of.cases) auto

lemma put_of_quiet: "\<not> is_write fd e \<Longrightarrow> put_of fd e = []"
  by (cases "(fd, e)" rule: put_of.cases) auto

lemma rcvd_emits: "emits (\<lambda>e. \<not> is_read fd e) w w' \<Longrightarrow> rcvd fd w' = rcvd fd w"
  unfolding emits_def rcvd_def trace_def
  by (auto simp: list_all_iff got_of_quiet)

lemma sent_emits: "emits (\<lambda>e. \<not> is_write fd e) w w' \<Longrightarrow> sent fd w' = sent fd w"
  unfolding emits_def sent_def trace_def
  by (auto simp: list_all_iff put_of_quiet)

lemma is_read_not_write: "is_read fd e \<Longrightarrow> \<not> is_write fd' e"
  by (cases e) auto

lemma is_write_not_read: "is_write fd e \<Longrightarrow> \<not> is_read fd' e"
  by (cases e) auto

section \<open>Time and interruptions\<close>

text \<open>
  Two facts about real environments that termination rests on: the monotonic clock passes
  every deadline once enough events have happened, and only finitely many calls on a
  descriptor are interrupted by a signal (at most \<open>n\<close>, counted in the history).
\<close>

definition clock_diverges :: "env \<Rightarrow> bool" where
  "clock_diverges E \<longleftrightarrow> (\<forall>s. \<exists>n. \<forall>h. n \<le> length h \<longrightarrow> s < fst (env_clock E h) \<and> 0 \<le> snd (env_clock E h))"

fun is_read_intr :: "int \<Rightarrow> event \<Rightarrow> bool" where
  "is_read_intr fd (EvRead f dst n REintr) = (f = fd)"
| "is_read_intr fd _ = False"

definition read_intrs :: "int \<Rightarrow> world \<Rightarrow> nat" where
  "read_intrs fd w = length (filter (is_read_intr fd) (hist w))"

definition read_intr_bound :: "env \<Rightarrow> int \<Rightarrow> nat \<Rightarrow> bool" where
  "read_intr_bound E fd k \<longleftrightarrow>
     (\<forall>h n. k \<le> length (filter (is_read_intr fd) h) \<longrightarrow> env_read E h fd n \<noteq> REintr)"

fun is_poll_intr :: "int \<Rightarrow> event \<Rightarrow> bool" where
  "is_poll_intr fd (EvPoll f ms PEintr) = (f = fd)"
| "is_poll_intr fd _ = False"

definition poll_intrs :: "int \<Rightarrow> world \<Rightarrow> nat" where
  "poll_intrs fd w = length (filter (is_poll_intr fd) (hist w))"

definition poll_intr_bound :: "env \<Rightarrow> int \<Rightarrow> nat \<Rightarrow> bool" where
  "poll_intr_bound E fd k \<longleftrightarrow>
     (\<forall>h ms. k \<le> length (filter (is_poll_intr fd) h) \<longrightarrow> env_poll E h fd ms \<noteq> PEintr)"

text \<open>A write makes no progress when it is interrupted or takes no byte.\<close>

fun is_write_stall :: "int \<Rightarrow> event \<Rightarrow> bool" where
  "is_write_stall fd (EvWrite f bs WEintr) = (f = fd)"
| "is_write_stall fd (EvWrite f bs (WCount k)) = (f = fd \<and> k = 0)"
| "is_write_stall fd _ = False"

definition write_stalls :: "int \<Rightarrow> world \<Rightarrow> nat" where
  "write_stalls fd w = length (filter (is_write_stall fd) (hist w))"

definition write_stall_bound :: "env \<Rightarrow> int \<Rightarrow> nat \<Rightarrow> bool" where
  "write_stall_bound E fd k \<longleftrightarrow>
     (\<forall>h bs. bs \<noteq> [] \<longrightarrow> k \<le> length (filter (is_write_stall fd) h) \<longrightarrow>
        env_write E h fd bs \<noteq> WEintr \<and> env_write E h fd bs \<noteq> WCount 0)"

section \<open>A concrete environment\<close>

text \<open>
  An environment to run the programs in: a peer that sends \<open>input\<close> and then closes, a clock
  that advances with the history, calls that succeed. The theorems are applied to it, and to
  variants of it, at concrete inputs.
\<close>

definition sample_env :: "u8 list \<Rightarrow> env" where
  "sample_env input =
     \<lparr>env_clock = (\<lambda>h. (int (length h), 0)),
      env_read = (\<lambda>h fd n. RData (drop (length (concat (map (got_of fd) (rev h)))) input)),
      env_write = (\<lambda>h fd bs. WCount (length bs)),
      env_poll = (\<lambda>h fd ms. PTimeout),
      env_reg = (\<lambda>h a. 0),
      env_word = (\<lambda>h a. 0),
      env_byte = (\<lambda>h a. 0),
      env_open = (\<lambda>h path. 3),
      env_mmap = (\<lambda>h fd n. 0x1000),
      env_fopen = (\<lambda>h path mode. True),
      env_fgets = (\<lambda>h path. Some ''4096''),
      env_fprintf = (\<lambda>h path. True),
      env_fclose = (\<lambda>h path. True),
      env_listdir = (\<lambda>h path. Some []),
      env_malloc = (\<lambda>h n. True),
      env_socket = (\<lambda>h. 3),
      env_listen = (\<lambda>h fd port. True),
      env_accept = (\<lambda>h. AError),
      env_resolve = (\<lambda>h host port. Some 1),
      env_connect = (\<lambda>h fd i. True),
      env_file = (\<lambda>h path. []),
      env_fwrite = (\<lambda>h path bs. length bs),
      env_stop = (\<lambda>h. False)\<rparr>"

definition start_world :: "env \<Rightarrow> world" where
  "start_world E = \<lparr>world_env = E, hist = []\<rparr>"

lemma sample_clock_diverges: "clock_diverges (sample_env input)"
  unfolding clock_diverges_def
proof
  fix s :: int
  show "\<exists>n. \<forall>h. n \<le> length h \<longrightarrow> s < fst (env_clock (sample_env input) h) \<and> 0 \<le> snd (env_clock (sample_env input) h)"
    by (intro exI [of _ "Suc (nat s)"]) (auto simp: sample_env_def)
qed

lemma sample_bounds:
  "read_intr_bound (sample_env input) fd 0" "poll_intr_bound (sample_env input) fd 0"
  "write_stall_bound (sample_env input) fd 0"
  by (simp_all add: read_intr_bound_def poll_intr_bound_def write_stall_bound_def sample_env_def)

end
