(* ===== verification/OJLS_Proto.thy ===== *)
theory OJLS_Proto
  imports OJLS_Env
begin

text \<open>
  The wire protocol of \<open>common/ojls_proto.h\<close>: the message and status codes, the 20-byte
  little-endian header with its packer and parser, and the size of a pixel on the wire. The
  byte routines write into and read from a buffer at an offset, as the C does.
\<close>

unbundle bit_operations_syntax

section \<open>Constants\<close>

definition OJLS_PROTO_MAGIC :: u32 where [consts_defs]: "OJLS_PROTO_MAGIC = 0x4F4A4C53"
definition OJLS_PROTO_VERSION :: u16 where [consts_defs]: "OJLS_PROTO_VERSION = 1"
definition OJLS_PROTO_HDR_LEN :: nat where [consts_defs]: "OJLS_PROTO_HDR_LEN = 20"
definition OJLS_PROTO_PORT :: int where [consts_defs]: "OJLS_PROTO_PORT = 19020"

definition OJLS_MSG_ENCODE_REQ :: u8 where [consts_defs]: "OJLS_MSG_ENCODE_REQ = 1"
definition OJLS_MSG_ENCODE_RESP :: u8 where [consts_defs]: "OJLS_MSG_ENCODE_RESP = 2"
definition OJLS_MSG_STREAM_REQ :: u8 where [consts_defs]: "OJLS_MSG_STREAM_REQ = 3"
definition OJLS_MSG_STREAM_RESP :: u8 where [consts_defs]: "OJLS_MSG_STREAM_RESP = 4"

definition OJLS_ST_OK :: u8 where [consts_defs]: "OJLS_ST_OK = 0"
definition OJLS_ST_BAD_MAGIC :: u8 where [consts_defs]: "OJLS_ST_BAD_MAGIC = 1"
definition OJLS_ST_BAD_VERSION :: u8 where [consts_defs]: "OJLS_ST_BAD_VERSION = 2"
definition OJLS_ST_BAD_TYPE :: u8 where [consts_defs]: "OJLS_ST_BAD_TYPE = 3"
definition OJLS_ST_BAD_DIMS :: u8 where [consts_defs]: "OJLS_ST_BAD_DIMS = 4"
definition OJLS_ST_BAD_BITNESS :: u8 where [consts_defs]: "OJLS_ST_BAD_BITNESS = 5"
definition OJLS_ST_SIZE_MISMATCH :: u8 where [consts_defs]: "OJLS_ST_SIZE_MISMATCH = 6"
definition OJLS_ST_TOO_LARGE :: u8 where [consts_defs]: "OJLS_ST_TOO_LARGE = 7"
definition OJLS_ST_HW_ERROR :: u8 where [consts_defs]: "OJLS_ST_HW_ERROR = 8"
definition OJLS_ST_HW_TIMEOUT :: u8 where [consts_defs]: "OJLS_ST_HW_TIMEOUT = 9"
definition OJLS_ST_BAD_READY :: u8 where [consts_defs]: "OJLS_ST_BAD_READY = 10"

section \<open>The header\<close>

record ojls_hdr =
  h_magic :: u32
  h_version :: u16
  h_type :: u8
  h_status :: u8
  h_width :: u16
  h_height :: u16
  h_bitness :: u8
  h_ready_pct :: u8
  h_payload_len :: u32

definition ojls_put_u16 :: "u8 list \<Rightarrow> nat \<Rightarrow> u16 \<Rightarrow> u8 list" where
  "ojls_put_u16 buf p v = buf[p := ucast (v AND 0xFF), p + 1 := ucast (drop_bit 8 v)]"

definition ojls_put_u32 :: "u8 list \<Rightarrow> nat \<Rightarrow> u32 \<Rightarrow> u8 list" where
  "ojls_put_u32 buf p v =
     buf[p := ucast (v AND 0xFF),
         p + 1 := ucast (drop_bit 8 v AND 0xFF),
         p + 2 := ucast (drop_bit 16 v AND 0xFF),
         p + 3 := ucast (drop_bit 24 v)]"

definition ojls_get_u16 :: "u8 list \<Rightarrow> nat \<Rightarrow> u16" where
  "ojls_get_u16 buf p = ucast (buf ! p) OR push_bit 8 (ucast (buf ! (p + 1)))"

definition ojls_get_u32 :: "u8 list \<Rightarrow> nat \<Rightarrow> u32" where
  "ojls_get_u32 buf p =
     ucast (buf ! p) OR push_bit 8 (ucast (buf ! (p + 1)))
       OR push_bit 16 (ucast (buf ! (p + 2))) OR push_bit 24 (ucast (buf ! (p + 3)))"

definition ojls_hdr_pack :: "u8 list \<Rightarrow> ojls_hdr \<Rightarrow> u8 list" where
  "ojls_hdr_pack buf0 h =
     (let buf1 = ojls_put_u32 buf0 0 (h_magic h);
          buf2 = ojls_put_u16 buf1 4 (h_version h);
          buf3 = buf2[6 := h_type h];
          buf4 = buf3[7 := h_status h];
          buf5 = ojls_put_u16 buf4 8 (h_width h);
          buf6 = ojls_put_u16 buf5 10 (h_height h);
          buf7 = buf6[12 := h_bitness h];
          buf8 = buf7[13 := h_ready_pct h];
          buf9 = buf8[14 := 0];
          buf10 = buf9[15 := 0]
      in ojls_put_u32 buf10 16 (h_payload_len h))"

definition ojls_hdr_unpack :: "u8 list \<Rightarrow> ojls_hdr" where
  "ojls_hdr_unpack buf =
     \<lparr>h_magic = ojls_get_u32 buf 0,
      h_version = ojls_get_u16 buf 4,
      h_type = buf ! 6,
      h_status = buf ! 7,
      h_width = ojls_get_u16 buf 8,
      h_height = ojls_get_u16 buf 10,
      h_bitness = buf ! 12,
      h_ready_pct = buf ! 13,
      h_payload_len = ojls_get_u32 buf 16\<rparr>"

text \<open>A local \<open>uint8_t buf[20]\<close> filled by the packer, and a 4-byte length word.\<close>

definition hdr_bytes :: "ojls_hdr \<Rightarrow> u8 list" where
  "hdr_bytes h = ojls_hdr_pack (replicate OJLS_PROTO_HDR_LEN 0) h"

definition u32_bytes :: "u32 \<Rightarrow> u8 list" where
  "u32_bytes v = ojls_put_u32 (replicate 4 0) 0 v"

definition ojls_status_str :: "u8 \<Rightarrow> string" where
  "ojls_status_str status =
     (if status = OJLS_ST_OK then ''OK''
      else if status = OJLS_ST_BAD_MAGIC then ''bad magic''
      else if status = OJLS_ST_BAD_VERSION then ''unsupported protocol version''
      else if status = OJLS_ST_BAD_TYPE then ''unsupported message type''
      else if status = OJLS_ST_BAD_DIMS then ''dimensions outside hardware range''
      else if status = OJLS_ST_BAD_BITNESS then ''bitness does not match hardware''
      else if status = OJLS_ST_SIZE_MISMATCH then ''payload length does not match dimensions''
      else if status = OJLS_ST_TOO_LARGE then ''image exceeds board DMA buffers''
      else if status = OJLS_ST_HW_ERROR then ''hardware/DMA error''
      else if status = OJLS_ST_HW_TIMEOUT then ''hardware timeout''
      else if status = OJLS_ST_BAD_READY then ''ready level above 100%''
      else ''unknown status'')"

definition ojls_bytes_per_pixel :: "u8 \<Rightarrow> u32" where
  "ojls_bytes_per_pixel bitness = (if bitness > 8 then 2 else 1)"

section \<open>Words in a buffer\<close>

lemma length_put [simp]:
  "length (ojls_put_u16 buf p v) = length buf" "length (ojls_put_u32 buf p w) = length buf"
  by (simp_all add: ojls_put_u16_def ojls_put_u32_def)

lemma get_put_u16: "p + 1 < length buf \<Longrightarrow> ojls_get_u16 (ojls_put_u16 buf p v) p = v"
  by (simp add: ojls_get_u16_def ojls_put_u16_def ucast_and_255 word16_bytes)

lemma get_put_u32: "p + 3 < length buf \<Longrightarrow> ojls_get_u32 (ojls_put_u32 buf p v) p = v"
  by (simp add: ojls_get_u32_def ojls_put_u32_def ucast_and_255 word32_bytes)

lemma put_get_u16: "ojls_put_u16 buf p (ojls_get_u16 buf p) = buf"
  unfolding ojls_get_u16_def ojls_put_u16_def ucast_and_255 bytes_word16 by simp

lemma put_get_u32: "ojls_put_u32 buf p (ojls_get_u32 buf p) = buf"
  unfolding ojls_get_u32_def ojls_put_u32_def ucast_and_255 bytes_word32 by simp

section \<open>The header in a buffer\<close>

lemma length_hdr_pack [simp]: "length (ojls_hdr_pack buf h) = length buf"
  by (simp add: ojls_hdr_pack_def Let_def)

lemma length_hdr_bytes [simp]: "length (hdr_bytes h) = 20"
  by (simp add: hdr_bytes_def consts_defs)

lemma length_u32_bytes [simp]: "length (u32_bytes v) = 4"
  by (simp add: u32_bytes_def)

text \<open>The bytes of a packed header, one by one; the previous content of the buffer is gone.\<close>

lemma hdr_pack_bytes:
  assumes "length buf = 20"
  shows "ojls_hdr_pack buf h =
    [ucast (h_magic h), ucast (drop_bit 8 (h_magic h)), ucast (drop_bit 16 (h_magic h)),
     ucast (drop_bit 24 (h_magic h)), ucast (h_version h), ucast (drop_bit 8 (h_version h)),
     h_type h, h_status h, ucast (h_width h), ucast (drop_bit 8 (h_width h)),
     ucast (h_height h), ucast (drop_bit 8 (h_height h)), h_bitness h, h_ready_pct h, 0, 0,
     ucast (h_payload_len h), ucast (drop_bit 8 (h_payload_len h)),
     ucast (drop_bit 16 (h_payload_len h)), ucast (drop_bit 24 (h_payload_len h))]"
proof -
  from assms obtain b0 b1 b2 b3 b4 b5 b6 b7 b8 b9 b10 b11 b12 b13 b14 b15 b16 b17 b18 b19
    where "buf = [b0, b1, b2, b3, b4, b5, b6, b7, b8, b9, b10, b11, b12, b13, b14, b15, b16, b17, b18, b19]"
    by (auto simp: numeral_eq_Suc length_Suc_conv)
  then show ?thesis
    by (simp add: ojls_hdr_pack_def ojls_put_u16_def ojls_put_u32_def ucast_and_255 Let_def)
qed

lemma hdr_unpack_bytes:
  "ojls_hdr_unpack
    (ucast (m :: u32) # ucast (drop_bit 8 m) # ucast (drop_bit 16 m) # ucast (drop_bit 24 m)
      # ucast (v :: u16) # ucast (drop_bit 8 v) # ty # st # ucast (w :: u16) # ucast (drop_bit 8 w)
      # ucast (hh :: u16) # ucast (drop_bit 8 hh) # bt # rp # z1 # z2
      # ucast (l :: u32) # ucast (drop_bit 8 l) # ucast (drop_bit 16 l) # ucast (drop_bit 24 l) # rest) =
   \<lparr>h_magic = m, h_version = v, h_type = ty, h_status = st, h_width = w, h_height = hh,
    h_bitness = bt, h_ready_pct = rp, h_payload_len = l\<rparr>"
  by (simp add: ojls_hdr_unpack_def ojls_get_u16_def ojls_get_u32_def word16_bytes word32_bytes
      nth_Cons')

lemma hdr_unpack_pack_append:
  assumes "length buf = 20"
  shows "ojls_hdr_unpack (ojls_hdr_pack buf h @ rest) = h"
  using assms by (simp add: hdr_pack_bytes hdr_unpack_bytes)

lemma hdr_unpack_hdr_bytes [simp]: "ojls_hdr_unpack (hdr_bytes h) = h"
  using hdr_unpack_pack_append [of "replicate OJLS_PROTO_HDR_LEN 0" h "[]"]
  by (simp add: hdr_bytes_def consts_defs)

section \<open>Fixed-width codecs\<close>

text \<open>
  What a reader of a length table or of a request stream relies on: an encoder into a fixed
  number of bytes, and a decoder at an offset that finds what was encoded there.
\<close>

locale codec =
  fixes enc :: "'a \<Rightarrow> u8 list"
    and dec :: "u8 list \<Rightarrow> nat \<Rightarrow> 'a"
    and width :: nat
  assumes length_enc: "length (enc x) = width"
    and dec_app: "dec (xs @ enc x @ ys) (length xs) = x"
begin

lemma length_table: "length (concat (map enc vs)) = width * length vs"
  by (induction vs) (simp_all add: length_enc)

lemma dec_nth:
  assumes "i < length vs"
  shows "dec (concat (map enc vs) @ rest) (width * i) = vs ! i"
proof -
  have vs: "vs = take i vs @ vs ! i # drop (Suc i) vs"
    using assms by (simp add: id_take_nth_drop)
  have "concat (map enc vs) @ rest =
      concat (map enc (take i vs)) @ enc (vs ! i) @ (concat (map enc (drop (Suc i) vs)) @ rest)"
    by (subst vs) simp
  moreover have "length (concat (map enc (take i vs))) = width * i"
    using assms by (simp add: length_table)
  ultimately show ?thesis using dec_app by metis
qed

lemma dec_table: "map (\<lambda>i. dec (concat (map enc vs) @ rest) (width * i)) [0..<length vs] = vs"
  by (rule nth_equalityI) (simp_all add: dec_nth)

end

lemma u32_bytes_eq:
  "u32_bytes v = [ucast v, ucast (drop_bit 8 v), ucast (drop_bit 16 v), ucast (drop_bit 24 v)]"
proof -
  have "replicate 4 (0 :: u8) = [0, 0, 0, 0]" by (simp add: numeral_eq_Suc)
  then show ?thesis by (simp add: u32_bytes_def ojls_put_u32_def ucast_and_255)
qed

lemma get_u32_app: "ojls_get_u32 (xs @ u32_bytes v @ ys) (length xs) = v"
  by (simp add: ojls_get_u32_def u32_bytes_eq nth_append word32_bytes)

interpretation u32c: codec u32_bytes ojls_get_u32 4
  by unfold_locales (simp_all add: get_u32_app)

interpretation hdrc: codec hdr_bytes "\<lambda>buf p. ojls_hdr_unpack (drop p buf)" 20
  by unfold_locales
    (simp_all add: hdr_bytes_def hdr_unpack_pack_append consts_defs)

end
