(* ===== verification/OJLS_Net.thy ===== *)
theory OJLS_Net
  imports OJLS_Proto
begin

text \<open>
  The socket helpers of \<open>ojls_server.c\<close> and \<open>ojls_client.c\<close>: \<open>recv_full\<close>, \<open>send_full\<close> and
  \<open>drain\<close>, with the interfaces \<open>receiver\<close> and \<open>sender\<close> that the rest of the server and the
  client rely on, interpreted on all four routines.
\<close>

section \<open>recv_full\<close>

text \<open>
  One round of the \<open>while (got < len)\<close> loop. The local state is the bytes received so far
  (\<open>got\<close> of the code is their number). \<open>dst\<close> is the address the bytes go to when the buffer
  is DMA memory, \<open>None\<close> when it is a local buffer, whose new content is the result.
  The server returns 1 on an orderly end of file before any byte.
\<close>

definition recv_body ::
  "int \<Rightarrow> addr option \<Rightarrow> nat \<Rightarrow> u8 list \<Rightarrow> (u8 list + int \<times> u8 list) io" where
  "recv_body fd dst len buf w =
     (if length buf < len then
        (let (n, w1) = sys_read fd (map_option (\<lambda>p. p + of_nat (length buf)) dst)
                         (len - length buf) w
         in case n of
              REintr \<Rightarrow> Some (Inl buf, w1)
            | RError \<Rightarrow> Some (Inr (-1, buf), w1)
            | RData bs \<Rightarrow>
                if bs = [] then Some (Inr (if buf = [] then 1 else -1, buf), w1)
                else Some (Inl (buf @ bs), w1))
      else Some (Inr (0, buf), w))"

definition recv_full :: "int \<Rightarrow> addr option \<Rightarrow> nat \<Rightarrow> (int \<times> u8 list) io" where
  "recv_full fd dst len = c_loop (recv_body fd dst len) []"

text \<open>The client's version makes no difference between an early and a late end of file.\<close>

definition client_recv_body ::
  "int \<Rightarrow> addr option \<Rightarrow> nat \<Rightarrow> u8 list \<Rightarrow> (u8 list + int \<times> u8 list) io" where
  "client_recv_body fd dst len buf w =
     (if length buf < len then
        (let (n, w1) = sys_read fd (map_option (\<lambda>p. p + of_nat (length buf)) dst)
                         (len - length buf) w
         in case n of
              REintr \<Rightarrow> Some (Inl buf, w1)
            | RError \<Rightarrow> Some (Inr (-1, buf), w1)
            | RData bs \<Rightarrow>
                if bs = [] then Some (Inr (-1, buf), w1)
                else Some (Inl (buf @ bs), w1))
      else Some (Inr (0, buf), w))"

definition client_recv_full :: "int \<Rightarrow> addr option \<Rightarrow> nat \<Rightarrow> (int \<times> u8 list) io" where
  "client_recv_full fd dst len = c_loop (client_recv_body fd dst len) []"

section \<open>send_full\<close>

text \<open>
  What is sent is a local buffer or a stretch of DMA memory; in the second case the kernel
  copies out whatever the memory holds at the time of each \<open>write\<close>.
\<close>

datatype src = Local "u8 list" | Mem addr

fun src_bytes :: "src \<Rightarrow> nat \<Rightarrow> nat \<Rightarrow> world \<Rightarrow> u8 list" where
  "src_bytes (Local bs) off n w = take n (drop off bs)"
| "src_bytes (Mem p) off n w = mem_bytes (p + of_nat off) n w"

definition send_body :: "int \<Rightarrow> src \<Rightarrow> nat \<Rightarrow> nat \<Rightarrow> (nat + int) io" where
  "send_body fd buf len pos w =
     (if pos < len then
        (let (n, w1) = sys_write fd (src_bytes buf pos (len - pos) w) w
         in case n of
              WEintr \<Rightarrow> Some (Inl pos, w1)
            | WError \<Rightarrow> Some (Inr (-1), w1)
            | WCount k \<Rightarrow> Some (Inl (pos + k), w1))
      else Some (Inr 0, w))"

definition send_full :: "int \<Rightarrow> src \<Rightarrow> nat \<Rightarrow> int io" where
  "send_full fd buf len = c_loop (send_body fd buf len) 0"

definition client_send_body :: "int \<Rightarrow> src \<Rightarrow> nat \<Rightarrow> nat \<Rightarrow> (nat + int) io" where
  "client_send_body fd buf len pos w =
     (if pos < len then
        (let (n, w1) = sys_write fd (src_bytes buf pos (len - pos) w) w
         in case n of
              WEintr \<Rightarrow> Some (Inl pos, w1)
            | WError \<Rightarrow> Some (Inr (-1), w1)
            | WCount k \<Rightarrow> Some (Inl (pos + k), w1))
      else Some (Inr 0, w))"

definition client_send_full :: "int \<Rightarrow> src \<Rightarrow> nat \<Rightarrow> int io" where
  "client_send_full fd buf len = c_loop (client_send_body fd buf len) 0"

section \<open>drain\<close>

text \<open>\<open>uint8_t scratch[4096]\<close>: the payload is discarded a scratch buffer at a time.\<close>

definition drain_body :: "int \<Rightarrow> nat \<Rightarrow> (nat + int) io" where
  "drain_body fd len w =
     (if 0 < len then
        (let chunk = (if len < 4096 then len else 4096)
         in do {
              ((rc, bs), w1) \<leftarrow> recv_full fd None chunk w;
              if rc \<noteq> 0 then Some (Inr (-1), w1) else Some (Inl (len - chunk), w1)
            })
      else Some (Inr 0, w))"

definition drain :: "int \<Rightarrow> nat \<Rightarrow> int io" where
  "drain fd len = c_loop (drain_body fd) len"

section \<open>What receivers and senders promise\<close>

text \<open>
  A receiver appends to the bytes received exactly what it returns, at most what was asked
  for, all of it just when it reports success; it does nothing but read this descriptor.
\<close>

locale receiver =
  fixes recv :: "int \<Rightarrow> addr option \<Rightarrow> nat \<Rightarrow> (int \<times> u8 list) io"
  assumes recv_rcvd: "recv fd dst n w = Some ((rc, bs), w') \<Longrightarrow> rcvd fd w' = rcvd fd w @ bs"
    and recv_length: "recv fd dst n w = Some ((rc, bs), w') \<Longrightarrow> length bs \<le> n"
    and recv_full_iff: "recv fd dst n w = Some ((rc, bs), w') \<Longrightarrow> rc = 0 \<longleftrightarrow> length bs = n"
    and recv_emits: "recv fd dst n w = Some ((rc, bs), w') \<Longrightarrow> emits (is_read fd) w w'"
    and recv_returns: "read_intr_bound (world_env w) fd k \<Longrightarrow> returns (recv fd dst n w)"
begin

lemma recv_sent: "recv fd dst n w = Some ((rc, bs), w') \<Longrightarrow> sent fd' w' = sent fd' w"
  by (rule sent_emits) (blast intro: emits_mono recv_emits dest: is_read_not_write)

lemma recv_env: "recv fd dst n w = Some ((rc, bs), w') \<Longrightarrow> world_env w' = world_env w"
  by (blast intro: emits_env recv_emits)

lemma recv_contract:
  "recv fd dst n w = Some ((rc, bs), w') \<Longrightarrow>
     emits (is_read fd) w w' \<and> rcvd fd w' = rcvd fd w @ bs \<and> length bs \<le> n \<and> (rc = 0 \<longleftrightarrow> length bs = n)"
  by (simp add: recv_rcvd recv_length recv_full_iff recv_emits)

lemma recv_ok: "recv fd dst n w = Some ((0, bs), w') \<Longrightarrow> length bs = n"
  using recv_full_iff by blast

text \<open>A header, then the payload it announces: the stream splits at the boundary.\<close>

lemma recv_recv:
  assumes "recv fd d1 n1 w = Some ((0, bs1), w1)" and "recv fd d2 n2 w1 = Some ((0, bs2), w2)"
  shows "rcvd fd w2 = rcvd fd w @ bs1 @ bs2 \<and> length bs1 = n1 \<and> length bs2 = n2"
  using assms by (auto simp: recv_rcvd dest: recv_ok)

end

text \<open>
  \<open>holds w buf ds\<close>: from the state \<open>w\<close> on, the buffer's bytes are \<open>ds\<close>. A local buffer holds
  its content; DMA memory does when the environment leaves it alone.
\<close>

fun holds :: "world \<Rightarrow> src \<Rightarrow> u8 list \<Rightarrow> bool" where
  "holds w (Local bs) ds \<longleftrightarrow> ds = bs"
| "holds w (Mem p) ds \<longleftrightarrow>
     (\<forall>es i. i < length ds \<longrightarrow> env_byte (world_env w) (es @ hist w) (p + of_nat i) = ds ! i)"

fun src_fits :: "src \<Rightarrow> nat \<Rightarrow> bool" where
  "src_fits (Local bs) n \<longleftrightarrow> n \<le> length bs"
| "src_fits (Mem p) n \<longleftrightarrow> True"

text \<open>
  A sender sends a prefix of what its buffer holds, all of it just when it reports success,
  and does nothing but write to this descriptor.
\<close>

locale sender =
  fixes send :: "int \<Rightarrow> src \<Rightarrow> nat \<Rightarrow> int io"
  assumes send_sent: "src_fits buf n \<Longrightarrow> send fd buf n w = Some (rc, w') \<Longrightarrow>
      \<exists>bs. sent fd w' = sent fd w @ bs \<and> length bs \<le> n \<and> (rc = 0 \<longleftrightarrow> length bs = n)
        \<and> (\<forall>ds. holds w buf ds \<longrightarrow> n \<le> length ds \<longrightarrow> bs = take (length bs) ds)"
    and send_emits: "send fd buf n w = Some (rc, w') \<Longrightarrow> emits (is_write fd) w w'"
    and send_returns: "src_fits buf n \<Longrightarrow> write_stall_bound (world_env w) fd k \<Longrightarrow>
      returns (send fd buf n w)"
begin

lemma send_rcvd: "send fd buf n w = Some (rc, w') \<Longrightarrow> rcvd fd' w' = rcvd fd' w"
  by (rule rcvd_emits) (blast intro: emits_mono send_emits dest: is_write_not_read)

lemma send_env: "send fd buf n w = Some (rc, w') \<Longrightarrow> world_env w' = world_env w"
  by (blast intro: emits_env send_emits)

text \<open>A whole local buffer: either all of it goes out, or a strict prefix of it.\<close>

lemma send_local:
  assumes "send fd (Local bs) (length bs) w = Some (rc, w')"
  shows "\<exists>k \<le> length bs. sent fd w' = sent fd w @ take k bs \<and> (rc = 0 \<longleftrightarrow> k = length bs)"
proof -
  from send_sent [OF _ assms] obtain ds where
    "sent fd w' = sent fd w @ ds" "length ds \<le> length bs" "rc = 0 \<longleftrightarrow> length ds = length bs"
    "ds = take (length ds) bs" by auto
  then show ?thesis by metis
qed

lemma send_local_ok:
  "send fd (Local bs) (length bs) w = Some (0, w') \<Longrightarrow> sent fd w' = sent fd w @ bs"
  using send_local by fastforce

end

section \<open>The server's and the client's routines keep these promises\<close>

lemma sys_read_cases:
  assumes "sys_read fd dst n w = (r, w1)"
  shows "w1 = log (EvRead fd dst n r) w" and "\<forall>bs. r = RData bs \<longrightarrow> length bs \<le> n"
    and "r = REintr \<longleftrightarrow> env_read (world_env w) (hist w) fd n = REintr"
  using assms by (auto simp: sys_read_def Let_def clip_read_def split: rres.splits)

lemma sys_write_cases:
  assumes "sys_write fd bs w = (r, w1)"
  shows "w1 = log (EvWrite fd bs r) w" and "\<forall>k. r = WCount k \<longrightarrow> k \<le> length bs"
    and "r = WEintr \<longleftrightarrow> env_write (world_env w) (hist w) fd bs = WEintr"
    and "bs \<noteq> [] \<Longrightarrow> r = WCount 0 \<longleftrightarrow> env_write (world_env w) (hist w) fd bs = WCount 0"
  using assms by (auto simp: sys_write_def Let_def clip_write_def min_def split: wres.splits if_splits)

text \<open>One round of a receive loop, of either program.\<close>

lemma recv_round:
  assumes "body = recv_body fd dst n \<or> body = client_recv_body fd dst n"
    and "body buf w = Some (r, w1)" and "length buf \<le> n"
  shows "emits (is_read fd) w w1"
    and "r = Inl buf' \<Longrightarrow> length buf' \<le> n \<and> (\<exists>bs. buf' = buf @ bs \<and> rcvd fd w1 = rcvd fd w @ bs \<and>
        (bs \<noteq> [] \<and> read_intrs fd w1 = read_intrs fd w \<or>
         read_intrs fd w1 = Suc (read_intrs fd w) \<and>
           env_read (world_env w) (hist w) fd (n - length buf) = REintr))"
    and "r = Inr (rc, bs) \<Longrightarrow> bs = buf \<and> rcvd fd w1 = rcvd fd w \<and> (rc = 0 \<longleftrightarrow> length buf = n)"
proof -
  obtain v u where v: "sys_read fd (map_option (\<lambda>p. p + of_nat (length buf)) dst) (n - length buf) w = (v, u)"
    by force
  note sr = sys_read_cases [OF v]
  show "emits (is_read fd) w w1"
    using assms v sr(1)
    by (auto simp: recv_body_def client_recv_body_def split: if_splits rres.splits intro!: emits_log)
  show "r = Inl buf' \<Longrightarrow> length buf' \<le> n \<and> (\<exists>bs. buf' = buf @ bs \<and> rcvd fd w1 = rcvd fd w @ bs \<and>
        (bs \<noteq> [] \<and> read_intrs fd w1 = read_intrs fd w \<or>
         read_intrs fd w1 = Suc (read_intrs fd w) \<and>
           env_read (world_env w) (hist w) fd (n - length buf) = REintr))"
    using assms v sr
    by (auto simp: recv_body_def client_recv_body_def read_intrs_def
        split: if_splits rres.splits)
  show "r = Inr (rc, bs) \<Longrightarrow> bs = buf \<and> rcvd fd w1 = rcvd fd w \<and> (rc = 0 \<longleftrightarrow> length buf = n)"
    using assms v sr(1)
    by (auto simp: recv_body_def client_recv_body_def split: if_splits rres.splits)
qed

lemma recv_loop:
  assumes body: "body = recv_body fd dst n \<or> body = client_recv_body fd dst n"
    and ret: "c_loop body [] w = Some ((rc, bs), w')"
  shows "emits (is_read fd) w w' \<and> rcvd fd w' = rcvd fd w @ bs \<and> length bs \<le> n \<and> (rc = 0 \<longleftrightarrow> length bs = n)"
proof -
  let ?I = "\<lambda>buf w1. emits (is_read fd) w w1 \<and> rcvd fd w1 = rcvd fd w @ buf \<and> length buf \<le> n"
  have "?I (snd (rc, bs)) w' \<and> (fst (rc, bs) = 0 \<longleftrightarrow> length (snd (rc, bs)) = n)"
    using ret
  proof (rule c_loop_inv [where I = ?I])
    show "?I [] w" by simp
  next
    fix buf u buf' u1
    assume "?I buf u" and "body buf u = Some (Inl buf', u1)"
    then show "?I buf' u1"
      using recv_round(1,2) [OF body, of buf u "Inl buf'" u1] by (auto intro: emits_trans)
  next
    fix buf u a u1
    assume "?I buf u" and "body buf u = Some (Inr a, u1)"
    then show "?I (snd a) u1 \<and> (fst a = 0 \<longleftrightarrow> length (snd a) = n)"
      using recv_round(1,3) [OF body, of buf u "Inr a" u1] by (cases a) (auto intro: emits_trans)
  qed
  then show ?thesis by simp
qed

lemma recv_loop_returns:
  assumes body: "body = recv_body fd dst n \<or> body = client_recv_body fd dst n"
    and intr: "read_intr_bound (world_env w) fd k"
  shows "returns (c_loop body [] w)"
proof (rule c_loop_total [where I = "\<lambda>buf w1. world_env w1 = world_env w \<and> length buf \<le> n"
      and m = "\<lambda>buf w1. (n - length buf) + (k - read_intrs fd w1)"])
  show "world_env w = world_env w \<and> length [] \<le> n" by simp
next
  fix buf u
  show "returns (body buf u)"
    using body by (auto simp: recv_body_def client_recv_body_def split: prod.splits rres.splits)
next
  fix buf u buf' u1
  assume I: "world_env u = world_env w \<and> length buf \<le> n" and b: "body buf u = Some (Inl buf', u1)"
  from I have n: "length buf \<le> n" by simp
  from recv_round(1) [OF body b n] I have env: "world_env u1 = world_env w"
    by (auto dest: emits_env)
  from recv_round(2) [OF body b n refl] I obtain bs where bs: "length buf' \<le> n" "buf' = buf @ bs"
    "bs \<noteq> [] \<and> read_intrs fd u1 = read_intrs fd u \<or> read_intrs fd u1 = Suc (read_intrs fd u) \<and>
       env_read (world_env w) (hist u) fd (n - length buf) = REintr" by auto
  have "read_intrs fd u < k" if "env_read (world_env w) (hist u) fd (n - length buf) = REintr"
    using that intr by (auto simp: read_intr_bound_def read_intrs_def not_less [symmetric])
  with bs have "(n - length buf') + (k - read_intrs fd u1) < (n - length buf) + (k - read_intrs fd u)"
    by (cases bs) auto
  with env bs(1) show "(world_env u1 = world_env w \<and> length buf' \<le> n) \<and>
    (n - length buf') + (k - read_intrs fd u1) < (n - length buf) + (k - read_intrs fd u)" by simp
qed

interpretation srv: receiver recv_full
  by unfold_locales (auto simp: recv_full_def dest: recv_loop [OF disjI1 [OF refl]]
      recv_loop_returns [OF disjI1 [OF refl]])

interpretation cli: receiver client_recv_full
  by unfold_locales (auto simp: client_recv_full_def dest: recv_loop [OF disjI2 [OF refl]]
      recv_loop_returns [OF disjI2 [OF refl]])

text \<open>The two copies of \<open>send_full\<close> are the same function.\<close>

lemma client_send_full_eq: "client_send_full = send_full"
proof -
  have "client_send_body = send_body"
    by (intro ext) (simp add: client_send_body_def send_body_def)
  then show ?thesis by (intro ext) (simp add: client_send_full_def send_full_def)
qed

lemma length_src_bytes: "src_fits buf n \<Longrightarrow> off \<le> n \<Longrightarrow> length (src_bytes buf off (n - off) w) = n - off"
  by (cases buf) (auto simp: mem_bytes_def)

lemma src_bytes_holds:
  assumes "holds w0 buf ds" and "emits P w0 w" and "n \<le> length ds" and "off \<le> n"
  shows "src_bytes buf off (n - off) w = take (n - off) (drop off ds)"
proof (cases buf)
  case (Mem p)
  from assms(2) obtain es where es: "world_env w = world_env w0" "hist w = es @ hist w0"
    by (auto simp: emits_def)
  show ?thesis
    using assms Mem es
    by (intro nth_equalityI) (auto simp: mem_bytes_def add.assoc simp flip: of_nat_add)
qed (use assms in auto)

lemma send_round:
  assumes "send_body fd buf n pos w = Some (r, w1)" and "src_fits buf n" and "pos \<le> n"
  shows "emits (is_write fd) w w1"
    and "r = Inl pos' \<Longrightarrow> pos' \<le> n \<and> pos \<le> pos' \<and>
        sent fd w1 = sent fd w @ take (pos' - pos) (src_bytes buf pos (n - pos) w) \<and>
        (pos < pos' \<and> write_stalls fd w1 = write_stalls fd w \<or>
         write_stalls fd w1 = Suc (write_stalls fd w) \<and>
         (env_write (world_env w) (hist w) fd (src_bytes buf pos (n - pos) w) = WEintr \<or>
          env_write (world_env w) (hist w) fd (src_bytes buf pos (n - pos) w) = WCount 0))"
    and "r = Inr rc \<Longrightarrow> sent fd w1 = sent fd w \<and> (rc = 0 \<longleftrightarrow> pos = n)"
proof -
  obtain v u where v: "sys_write fd (src_bytes buf pos (n - pos) w) w = (v, u)" by force
  note sw = sys_write_cases [OF v]
  have len: "length (src_bytes buf pos (n - pos) w) = n - pos"
    using assms(2,3) by (rule length_src_bytes)
  then have ne: "pos < n \<Longrightarrow> src_bytes buf pos (n - pos) w \<noteq> []" by auto
  show "emits (is_write fd) w w1"
    using assms v sw(1) by (auto simp: send_body_def split: if_splits wres.splits intro!: emits_log)
  show "r = Inl pos' \<Longrightarrow> pos' \<le> n \<and> pos \<le> pos' \<and>
        sent fd w1 = sent fd w @ take (pos' - pos) (src_bytes buf pos (n - pos) w) \<and>
        (pos < pos' \<and> write_stalls fd w1 = write_stalls fd w \<or>
         write_stalls fd w1 = Suc (write_stalls fd w) \<and>
         (env_write (world_env w) (hist w) fd (src_bytes buf pos (n - pos) w) = WEintr \<or>
          env_write (world_env w) (hist w) fd (src_bytes buf pos (n - pos) w) = WCount 0))"
    using assms(1,3) v sw(1-3) sw(4) [OF ne] len
    by (cases v) (auto simp: send_body_def write_stalls_def split: if_splits)
  show "r = Inr rc \<Longrightarrow> sent fd w1 = sent fd w \<and> (rc = 0 \<longleftrightarrow> pos = n)"
    using assms(1,3) v sw(1) by (auto simp: send_body_def split: if_splits wres.splits)
qed

lemma send_loop:
  assumes ret: "send_full fd buf n w = Some (rc, w')" and fits: "src_fits buf n"
  shows "\<exists>bs. sent fd w' = sent fd w @ bs \<and> length bs \<le> n \<and> (rc = 0 \<longleftrightarrow> length bs = n)
      \<and> (\<forall>ds. holds w buf ds \<longrightarrow> n \<le> length ds \<longrightarrow> bs = take (length bs) ds)"
proof -
  let ?P = "\<lambda>pos u bs. emits (is_write fd) w u \<and> pos \<le> n \<and> sent fd u = sent fd w @ bs \<and> length bs = pos
      \<and> (\<forall>ds. holds w buf ds \<longrightarrow> n \<le> length ds \<longrightarrow> bs = take pos ds)"
  show ?thesis
    using ret unfolding send_full_def
  proof (rule c_loop_inv [where I = "\<lambda>pos u. \<exists>bs. ?P pos u bs"])
    show "\<exists>bs. ?P 0 w bs" by simp
  next
    fix pos u pos' u1
    assume "\<exists>bs. ?P pos u bs" and b: "send_body fd buf n pos u = Some (Inl pos', u1)"
    then obtain bs where P: "?P pos u bs" by blast
    let ?new = "take (pos' - pos) (src_bytes buf pos (n - pos) u)"
    from P have le: "pos \<le> n" by simp
    note R = send_round(1) [OF b fits le] send_round(2) [OF b fits le refl]
    have len: "length (src_bytes buf pos (n - pos) u) = n - pos"
      using fits P by (auto intro: length_src_bytes)
    have "bs @ ?new = take pos' ds" if "holds w buf ds" "n \<le> length ds" for ds
    proof -
      from P that have "bs = take pos ds" by blast
      moreover have "min (pos' - pos) (n - pos) = pos' - pos" using R(2) by auto
      then have "?new = take (pos' - pos) (drop pos ds)"
        using src_bytes_holds [of w buf ds "is_write fd" u n pos] P that by simp
      ultimately show ?thesis using R(2) take_add [of pos "pos' - pos" ds] by simp
    qed
    with P R len have "?P pos' u1 (bs @ ?new)" by (auto intro: emits_trans)
    then show "\<exists>bs. ?P pos' u1 bs" by blast
  next
    fix pos u rc u1
    assume "\<exists>bs. ?P pos u bs" and b: "send_body fd buf n pos u = Some (Inr rc, u1)"
    then obtain bs where P: "?P pos u bs" by blast
    then have le: "pos \<le> n" by simp
    from P send_round(1) [OF b fits le] send_round(3) [OF b fits le refl] show "\<exists>bs. sent fd u1 = sent fd w @ bs \<and> length bs \<le> n \<and>
        (rc = 0 \<longleftrightarrow> length bs = n) \<and> (\<forall>ds. holds w buf ds \<longrightarrow> n \<le> length ds \<longrightarrow> bs = take (length bs) ds)"
      by (intro exI [of _ bs]) (auto intro: emits_trans)
  qed
qed

lemma send_loop_returns:
  assumes fits: "src_fits buf n" and stall: "write_stall_bound (world_env w) fd k"
  shows "returns (send_full fd buf n w)"
  unfolding send_full_def
proof (rule c_loop_total [where I = "\<lambda>pos w1. world_env w1 = world_env w \<and> pos \<le> n"
      and m = "\<lambda>pos w1. (n - pos) + (k - write_stalls fd w1)"])
  show "world_env w = world_env w \<and> 0 \<le> n" by simp
next
  fix pos u
  show "returns (send_body fd buf n pos u)"
    by (auto simp: send_body_def split: prod.splits wres.splits)
next
  fix pos u pos' u1
  assume I: "world_env u = world_env w \<and> pos \<le> n" and b: "send_body fd buf n pos u = Some (Inl pos', u1)"
  then have le: "pos \<le> n" by simp
  note R = send_round(1) [OF b fits le] send_round(2) [OF b fits le refl]
  let ?bs = "src_bytes buf pos (n - pos) u"
  have "pos < n" using b by (auto simp: send_body_def split: if_splits)
  then have "?bs \<noteq> []" using length_src_bytes [OF fits le, of u] by auto
  then have "write_stalls fd u < k"
    if "env_write (world_env u) (hist u) fd ?bs = WEintr \<or> env_write (world_env u) (hist u) fd ?bs = WCount 0"
    using that stall I unfolding write_stall_bound_def write_stalls_def by (metis not_less)
  with R(2) have "(n - pos') + (k - write_stalls fd u1) < (n - pos) + (k - write_stalls fd u)"
    by auto
  with R I show "(world_env u1 = world_env w \<and> pos' \<le> n) \<and>
    (n - pos') + (k - write_stalls fd u1) < (n - pos) + (k - write_stalls fd u)"
    by (auto dest: emits_env)
qed

lemma send_full_emits: "send_full fd buf n w = Some (rc, w') \<Longrightarrow> emits (is_write fd) w w'"
  unfolding send_full_def
  by (erule emits_loop)
    (auto simp: send_body_def sys_write_def Let_def split: if_splits wres.splits intro!: emits_log)

interpretation srv: sender send_full
  by unfold_locales (rule send_loop send_full_emits send_loop_returns; assumption)+

interpretation cli: sender client_send_full
  unfolding client_send_full_eq by unfold_locales

section \<open>Draining a rejected payload\<close>

text \<open>
  A drain that reports success has taken exactly \<open>len\<close> bytes off the stream; one that fails
  has met the end of the stream or an error inside them.
\<close>

lemma drain_round:
  assumes "drain_body fd len w = Some (r, w1)"
  shows "emits (is_read fd) w w1"
    and "r = Inl len' \<Longrightarrow> len' < len \<and> (\<exists>bs. rcvd fd w1 = rcvd fd w @ bs \<and> length bs = len - len')"
    and "r = Inr rc \<Longrightarrow> (rc = 0 \<longleftrightarrow> len = 0) \<and> (\<exists>bs. rcvd fd w1 = rcvd fd w @ bs \<and> (if rc = 0 then bs = [] else length bs < len))"
  using assms
  by (auto simp: drain_body_def Let_def split: if_splits Option.bind_splits
      dest!: srv.recv_contract)

lemma drain_contract:
  assumes ret: "drain fd len w = Some (rc, w')"
  shows "\<exists>bs. rcvd fd w' = rcvd fd w @ bs \<and> length bs \<le> len \<and> (rc = 0 \<longleftrightarrow> length bs = len)"
proof -
  let ?I = "\<lambda>left u. \<exists>bs. rcvd fd u = rcvd fd w @ bs \<and> length bs + left = len"
  show ?thesis
    using ret unfolding drain_def
  proof (rule c_loop_inv [where I = ?I])
    show "?I len w" by simp
  next
    fix left u left' u1
    assume "?I left u" and b: "drain_body fd left u = Some (Inl left', u1)"
    then obtain bs bs' where "rcvd fd u = rcvd fd w @ bs" "length bs + left = len"
      "left' < left" "rcvd fd u1 = rcvd fd u @ bs'" "length bs' = left - left'"
      using drain_round(2) [OF b refl] by blast
    then show "?I left' u1" by (intro exI [of _ "bs @ bs'"]) simp
  next
    fix left u rc u1
    assume "?I left u" and b: "drain_body fd left u = Some (Inr rc, u1)"
    then obtain bs bs' where "rcvd fd u = rcvd fd w @ bs" "length bs + left = len" "rc = 0 \<longleftrightarrow> left = 0"
      "rcvd fd u1 = rcvd fd u @ bs'" "if rc = 0 then bs' = [] else length bs' < left"
      using drain_round(3) [OF b refl] by blast
    then show "\<exists>bs. rcvd fd u1 = rcvd fd w @ bs \<and> length bs \<le> len \<and> (rc = 0 \<longleftrightarrow> length bs = len)"
      by (intro exI [of _ "bs @ bs'"]) (auto split: if_splits)
  qed
qed

lemma drain_emits: "drain fd len w = Some (rc, w') \<Longrightarrow> emits (is_read fd) w w'"
  unfolding drain_def by (erule emits_loop) (rule drain_round(1))

lemma drain_sent: "drain fd len w = Some (rc, w') \<Longrightarrow> sent fd' w' = sent fd' w"
  by (rule sent_emits) (blast intro: emits_mono drain_emits dest: is_read_not_write)

lemma drain_returns:
  assumes intr: "read_intr_bound (world_env w) fd k"
  shows "returns (drain fd len w)"
  unfolding drain_def
proof (rule c_loop_total [where I = "\<lambda>left w1. world_env w1 = world_env w" and m = "\<lambda>left w1. left"])
  fix left :: nat and u :: world
  assume "world_env u = world_env w"
  with intr have "returns (recv_full fd None n u)" for n using srv.recv_returns by metis
  then show "returns (drain_body fd left u)"
    by (simp add: drain_body_def Let_def split: prod.splits)
next
  fix left u left' u1
  assume "world_env u = world_env w" and b: "drain_body fd left u = Some (Inl left', u1)"
  then show "world_env u1 = world_env w \<and> left' < left"
    using drain_round(1) [OF b] drain_round(2) [OF b refl] by (auto dest: emits_env)
qed simp

end
