(* ===== verification/OJLS_CLib.thy ===== *)
theory OJLS_CLib
  imports OJLS_Net "HOL-Library.Char_ord" "HOL-Library.List_Lexorder" "HOL-Library.Multiset"
begin

text \<open>
  The routines of the C library that the code calls on strings and numbers, in the C locale:
  truncating \<open>snprintf\<close>, \<open>strstr\<close>, \<open>strrchr\<close>, \<open>strtoul\<close> with base 0, \<open>atoi\<close>, the \<open>ctype.h\<close>
  tests; and the resources a program holds (descriptors, mappings), read off the history.
\<close>

section \<open>Strings\<close>

text \<open>A C string ends at its first NUL; \<open>snprintf\<close> into \<open>char buf[n]\<close> keeps \<open>n - 1\<close> characters.\<close>

definition cstr :: "string \<Rightarrow> string" where
  "cstr s = takeWhile (\<lambda>c. c \<noteq> CHR 0x00) s"

definition snprintf_buf :: "nat \<Rightarrow> string \<Rightarrow> string" where
  "snprintf_buf n s = take (n - 1) s"

lemma snprintf_buf_id: "length s < n \<Longrightarrow> snprintf_buf n s = s"
  by (simp add: snprintf_buf_def)

fun strstr :: "string \<Rightarrow> string \<Rightarrow> bool" where
  "strstr [] pat \<longleftrightarrow> pat = []"
| "strstr (c # cs) pat \<longleftrightarrow> take (length pat) (c # cs) = pat \<or> strstr cs pat"

lemma strstr_iff: "strstr s pat \<longleftrightarrow> (\<exists>xs ys. s = xs @ pat @ ys)"
proof (induction s)
  case (Cons c cs)
  have "take (length pat) (c # cs) = pat \<longleftrightarrow> (\<exists>ys. c # cs = pat @ ys)"
    by (metis append_take_drop_id append_eq_conv_conj)
  with Cons show ?case
    by (auto simp: Cons_eq_append_conv)
qed auto

text \<open>The part before the last occurrence of a character, and the part after it.\<close>

fun strrchr :: "char \<Rightarrow> string \<Rightarrow> nat option" where
  "strrchr ch [] = None"
| "strrchr ch (c # cs) =
     (case strrchr ch cs of Some i \<Rightarrow> Some (Suc i) | None \<Rightarrow> if c = ch then Some 0 else None)"

section \<open>Characters and numbers\<close>

definition c_isspace :: "char \<Rightarrow> bool" where
  "c_isspace c \<longleftrightarrow> c = CHR '' '' \<or> 9 \<le> (of_char c :: nat) \<and> (of_char c :: nat) \<le> 13"

definition c_isdigit :: "char \<Rightarrow> bool" where
  "c_isdigit c \<longleftrightarrow> 48 \<le> (of_char c :: nat) \<and> (of_char c :: nat) \<le> 57"

text \<open>The value of a digit in a base up to 36 (99 for no digit).\<close>

definition digit_val :: "char \<Rightarrow> nat" where
  "digit_val c =
     (let n = of_char c in
      if 48 \<le> n \<and> n \<le> 57 then n - 48
      else if 97 \<le> n \<and> n \<le> 122 then n - 87
      else if 65 \<le> n \<and> n \<le> 90 then n - 55
      else 99)"

definition digits_value :: "nat \<Rightarrow> string \<Rightarrow> nat" where
  "digits_value base s =
     foldl (\<lambda>a c. a * base + digit_val c) 0 (takeWhile (\<lambda>c. digit_val c < base) s)"

text \<open>
  \<open>strtoul(s, NULL, 0)\<close> and \<open>strtoull\<close> for a result of \<open>w\<close> bits: white space, a sign, a prefix
  that chooses the base, the longest run of digits; the value saturates at the largest one.
\<close>

definition strip_sign :: "string \<Rightarrow> bool \<times> string" where
  "strip_sign s =
     (let t = dropWhile c_isspace s
      in if take 1 t = ''-'' then (True, drop 1 t)
         else if take 1 t = ''+'' then (False, drop 1 t) else (False, t))"

definition strtoul0 :: "nat \<Rightarrow> string \<Rightarrow> nat" where
  "strtoul0 w s =
     (let (neg, t) = strip_sign s;
          v = (if (take 2 t = ''0x'' \<or> take 2 t = ''0X'') \<and> 2 < length t
                    \<and> digit_val (t ! 2) < 16
               then digits_value 16 (drop 2 t)
               else if take 1 t = ''0'' then digits_value 8 t
               else digits_value 10 t)
      in if v < 2 ^ w then (if neg then (2 ^ w - v) mod 2 ^ w else v) else 2 ^ w - 1)"

definition c_atoi :: "string \<Rightarrow> int" where
  "c_atoi s = (let (neg, t) = strip_sign s; v = int (digits_value 10 t) in if neg then - v else v)"

lemma strtoul0_less: "strtoul0 w s < 2 ^ w"
  by (auto simp: strtoul0_def Let_def split: prod.splits)

section \<open>Descriptors and mappings held\<close>

text \<open>What the program has opened and mapped and not yet given back.\<close>

fun open_fds :: "event list \<Rightarrow> int multiset" where
  "open_fds [] = {#}"
| "open_fds (EvOpen path fd # h) = (if fd < 0 then open_fds h else add_mset fd (open_fds h))"
| "open_fds (EvSocket fd # h) = (if fd < 0 then open_fds h else add_mset fd (open_fds h))"
| "open_fds (EvAccept r # h) = (case r of AConn fd \<Rightarrow> add_mset fd (open_fds h) | _ \<Rightarrow> open_fds h)"
| "open_fds (EvClose fd # h) = open_fds h - {#fd#}"
| "open_fds (_ # h) = open_fds h"

fun mappings :: "event list \<Rightarrow> (addr \<times> size_t) multiset" where
  "mappings [] = {#}"
| "mappings (EvMmap fd n a # h) = (if a = map_failed then mappings h else add_mset (a, n) (mappings h))"
| "mappings (EvMunmap a n # h) = mappings h - {#(a, n)#}"
| "mappings (_ # h) = mappings h"

text \<open>Streams of \<open>stdio.h\<close>: the files opened with \<open>fopen\<close> and not closed.\<close>

fun open_files :: "event list \<Rightarrow> string multiset" where
  "open_files [] = {#}"
| "open_files (EvFopen path mode ok # h) = (if ok then add_mset path (open_files h) else open_files h)"
| "open_files (EvFclose path ok # h) = open_files h - {#path#}"
| "open_files (_ # h) = open_files h"

text \<open>The number of blocks of the heap that are allocated and not yet freed.\<close>

fun live_blocks :: "event list \<Rightarrow> int" where
  "live_blocks [] = 0"
| "live_blocks (EvMalloc n ok # h) = live_blocks h + (if ok then 1 else 0)"
| "live_blocks (EvFree # h) = live_blocks h - 1"
| "live_blocks (_ # h) = live_blocks h"

text \<open>Events that neither open nor close anything.\<close>

fun is_resource :: "event \<Rightarrow> bool" where
  "is_resource (EvOpen p fd) = True"
| "is_resource (EvSocket fd) = True"
| "is_resource (EvAccept r) = True"
| "is_resource (EvClose fd) = True"
| "is_resource (EvMmap fd n a) = True"
| "is_resource (EvMunmap a n) = True"
| "is_resource (EvFopen p m ok) = True"
| "is_resource (EvFclose p ok) = True"
| "is_resource _ = False"

lemma resources_quiet:
  assumes "\<not> is_resource e"
  shows "open_fds (e # h) = open_fds h" "mappings (e # h) = mappings h" "open_files (e # h) = open_files h"
  using assms by (cases e; simp)+

lemma resources_append:
  "list_all (\<lambda>e. \<not> is_resource e) es \<Longrightarrow>
     open_fds (es @ h) = open_fds h \<and> mappings (es @ h) = mappings h \<and> open_files (es @ h) = open_files h"
  by (induction es) (auto simp: resources_quiet)

text \<open>Two states in which the program holds the same descriptors, mappings and streams.\<close>

definition same_resources :: "world \<Rightarrow> world \<Rightarrow> bool" where
  "same_resources w w' \<longleftrightarrow> open_fds (hist w') = open_fds (hist w) \<and>
     mappings (hist w') = mappings (hist w) \<and> open_files (hist w') = open_files (hist w)"

lemma same_resources_refl [simp]: "same_resources w w"
  by (simp add: same_resources_def)

lemma same_resources_trans: "same_resources w w1 \<Longrightarrow> same_resources w1 w2 \<Longrightarrow> same_resources w w2"
  by (simp add: same_resources_def)

lemma same_resources_emits: "emits (\<lambda>e. \<not> is_resource e) w w' \<Longrightarrow> same_resources w w'"
  by (auto simp: emits_def same_resources_def resources_append)

end
