(* ===== verification/OJLS_Uio.thy ===== *)
theory OJLS_Uio
  imports OJLS_CLib
begin

text \<open>
  \<open>uio.h\<close> and \<open>uio.c\<close>: finding, mapping and closing a UIO device, its register accesses, and
  the interrupt that the DMA waits sleep on. The lemmas show which descriptors and mappings
  each operation leaves behind and that a register access touches one address.
\<close>

section \<open>State\<close>

record uio =
  u_fd :: int
  u_regs :: addr
  u_map_size :: size_t
  u_irq_ok :: bool
  u_dev :: string
  u_name :: string

definition uio_zero :: uio where
  "uio_zero = \<lparr>u_fd = 0, u_regs = null_ptr, u_map_size = 0, u_irq_ok = False, u_dev = [], u_name = []\<rparr>"

section \<open>Register accesses\<close>

text \<open>\<open>regs[off / 4]\<close> of a \<open>uint32_t\<close> array.\<close>

definition reg_addr :: "uio \<Rightarrow> u32 \<Rightarrow> addr" where
  "reg_addr u off = u_regs u + 4 * (off div 4)"

definition uio_rd :: "uio \<Rightarrow> u32 \<Rightarrow> world \<Rightarrow> u32 \<times> world" where
  "uio_rd u off w = reg_load (reg_addr u off) w"

definition uio_wr :: "uio \<Rightarrow> u32 \<Rightarrow> u32 \<Rightarrow> world \<Rightarrow> world" where
  "uio_wr u off val w = reg_store (reg_addr u off) val w"

section \<open>Finding a device\<close>

definition sysfs_read_line :: "string \<Rightarrow> nat \<Rightarrow> world \<Rightarrow> (int \<times> string) \<times> world" where
  "sysfs_read_line path len w =
     (let (ok, w1) = sys_fopen path ''r'' w
      in if \<not> ok then ((-1, []), w1)
         else (let (line, w2) = sys_fgets path w1;
                   (_, w3) = sys_fclose path w2
               in case line of
                    None \<Rightarrow> ((-1, []), w3)
                  | Some s \<Rightarrow> ((0, takeWhile (\<lambda>c. c \<noteq> CHR 0x0A) (cstr (take (len - 1) s))), w3)))"

text \<open>
  The \<open>readdir\<close> loop of \<open>uio_find\<close> over the entries of \<open>/sys/class/uio\<close>, with the two output
  buffers, which a device with an overlong name overwrites before it is skipped.
\<close>

fun uio_find_loop ::
  "string \<Rightarrow> nat \<Rightarrow> nat \<Rightarrow> string list \<Rightarrow> string \<times> string \<Rightarrow> world \<Rightarrow> (int \<times> string \<times> string) \<times> world"
where
  "uio_find_loop name dev_len sysname_len [] out w = ((-1, out), w)"
| "uio_find_loop name dev_len sysname_len (ent # ents) (dev, sysname) w =
     (if take 3 ent \<noteq> ''uio'' then uio_find_loop name dev_len sysname_len ents (dev, sysname) w
      else
        (let path = snprintf_buf 300 (''/sys/class/uio/'' @ ent @ ''/name'');
             ((rc, attr), w1) = sysfs_read_line path 128 w
         in if rc \<noteq> 0 then uio_find_loop name dev_len sysname_len ents (dev, sysname) w1
            else if strstr attr name then
              (let full = ''/dev/'' @ ent; dev1 = snprintf_buf dev_len full
               in if dev_len \<le> length full
                  then uio_find_loop name dev_len sysname_len ents (dev1, sysname) w1
                  else if sysname_len \<le> length attr
                  then uio_find_loop name dev_len sysname_len ents (dev1, snprintf_buf sysname_len attr) w1
                  else ((0, dev1, snprintf_buf sysname_len attr), w1))
            else uio_find_loop name dev_len sysname_len ents (dev, sysname) w1))"

definition uio_find :: "string \<Rightarrow> nat \<Rightarrow> nat \<Rightarrow> world \<Rightarrow> (int \<times> string \<times> string) \<times> world" where
  "uio_find name dev_len sysname_len w =
     (let (ents, w1) = sys_listdir ''/sys/class/uio'' w
      in case ents of
           None \<Rightarrow> ((-1, [], []), w1)
         | Some es \<Rightarrow> uio_find_loop name dev_len sysname_len es ([], []) w1)"

section \<open>Opening and closing\<close>

definition uio_open :: "string \<Rightarrow> world \<Rightarrow> (int \<times> uio) \<times> world" where
  "uio_open name_or_path w =
     (let u0 = uio_zero\<lparr>u_fd := -1\<rparr>;
          ((rc, dev, name), w1) =
            (if take 5 name_or_path = ''/dev/''
             then ((0, snprintf_buf 64 name_or_path, snprintf_buf 64 (drop 5 name_or_path)), w)
             else uio_find name_or_path 64 64 w);
          u1 = u0\<lparr>u_dev := dev, u_name := name\<rparr>
      in if rc \<noteq> 0 then ((-1, u1), w1)
         else
           (let size_path = snprintf_buf 300 (''/sys/class/uio/'' @ drop 5 dev @ ''/maps/map0/size'');
                ((rc2, attr), w2) = sysfs_read_line size_path 64 w1
            in if rc2 \<noteq> 0 then ((-1, u1), w2)
               else
                 (let u2 = u1\<lparr>u_map_size := of_nat (strtoul0 32 attr)\<rparr>;
                      (fd, w3) = sys_open dev w2;
                      u3 = u2\<lparr>u_fd := fd\<rparr>
                  in if fd < 0 then ((-1, u3), w3)
                     else
                       (let (a, w4) = sys_mmap fd (u_map_size u3) w3;
                            u4 = u3\<lparr>u_regs := a\<rparr>
                        in if a = map_failed
                           then ((-1, u4\<lparr>u_fd := -1\<rparr>), sys_close fd w4)
                           else ((0, u4), w4)))))"

definition uio_close :: "uio \<Rightarrow> world \<Rightarrow> uio \<times> world" where
  "uio_close u w =
     (let w1 = (if u_regs u \<noteq> null_ptr \<and> u_regs u \<noteq> map_failed
                then sys_munmap (u_regs u) (u_map_size u) w else w);
          w2 = (if 0 \<le> u_fd u then sys_close (u_fd u) w1 else w1)
      in (u\<lparr>u_regs := null_ptr, u_fd := -1\<rparr>, w2))"

section \<open>The interrupt\<close>

definition uio_irq_enable :: "uio \<Rightarrow> world \<Rightarrow> (int \<times> uio) \<times> world" where
  "uio_irq_enable u w =
     (let (n, w1) = sys_write (u_fd u) (u32_bytes 1) w
      in if n \<noteq> WCount 4 then ((-1, u), w1) else ((0, u\<lparr>u_irq_ok := True\<rparr>), w1))"

definition poll_body :: "uio \<Rightarrow> int \<Rightarrow> unit \<Rightarrow> (unit + pres) io" where
  "poll_body u timeout_ms s w =
     (let (rc, w1) = sys_poll (u_fd u) timeout_ms w
      in Some (if rc = PEintr then Inl () else Inr rc, w1))"

definition uio_irq_wait :: "uio \<Rightarrow> int \<Rightarrow> (int \<times> uio) io" where
  "uio_irq_wait u timeout_ms w = do {
     (rc, w1) \<leftarrow> c_loop (poll_body u timeout_ms) () w;
     if rc = PTimeout then Some ((0, u), w1)
     else if rc \<noteq> PReady then Some ((-1, u), w1)
     else
       (let (n, w2) = sys_read (u_fd u) None 4 w1
        in case n of
             RData bs \<Rightarrow>
               if length bs \<noteq> 4 then Some ((-1, u), w2)
               else (let ((_, u1), w3) = uio_irq_enable u w2 in Some ((1, u1), w3))
           | _ \<Rightarrow> Some ((-1, u), w2))
   }"

section \<open>What the operations do to the world\<close>

text \<open>Traffic on one descriptor: reads, writes and polls of it.\<close>

fun on_fd :: "int \<Rightarrow> event \<Rightarrow> bool" where
  "on_fd fd (EvRead f dst n r) = (f = fd)"
| "on_fd fd (EvWrite f bs r) = (f = fd)"
| "on_fd fd (EvPoll f ms r) = (f = fd)"
| "on_fd fd _ = False"

lemma on_fd_quiet:
  "on_fd fd e \<Longrightarrow> \<not> is_resource e" "on_fd fd e \<Longrightarrow> fd' \<noteq> fd \<Longrightarrow> \<not> is_read fd' e \<and> \<not> is_write fd' e"
  by (cases e; simp)+

lemma uio_rd_hist [log_simps]:
  "uio_rd u off w =
     (let v = env_reg (world_env w) (hist w) (reg_addr u off) in (v, log (EvRegRead (reg_addr u off) v) w))"
  by (simp add: uio_rd_def reg_load_def)

lemma uio_wr_hist [log_simps]: "uio_wr u off v w = log (EvRegWrite (reg_addr u off) v) w"
  by (simp add: uio_wr_def reg_store_def)

lemma sysfs_read_line_resources: "sysfs_read_line path len w = (r, w') \<Longrightarrow> same_resources w w'"
  by (auto simp: sysfs_read_line_def sys_defs same_resources_def Let_def
      split: if_splits option.splits)

lemma uio_find_loop_resources: "uio_find_loop name n m ents out w = (r, w') \<Longrightarrow> same_resources w w'"
proof (induction ents arbitrary: out w)
  case (Cons ent ents)
  obtain dev sysname where out: "out = (dev, sysname)" by force
  obtain rc attr w1 where l: "sysfs_read_line (snprintf_buf 300 (''/sys/class/uio/'' @ ent @ ''/name'')) 128 w
      = ((rc, attr), w1)" by (metis prod.exhaust)
  have w1: "same_resources w w1" using l by (rule sysfs_read_line_resources)
  show ?case
    using Cons.prems Cons.IH w1 unfolding out uio_find_loop.simps Let_def l case_prod_conv
    by (auto intro: same_resources_trans split: if_splits)
qed simp

lemma uio_find_resources: "uio_find name n m w = (r, w') \<Longrightarrow> same_resources w w'"
  by (auto simp: uio_find_def sys_listdir_def Let_def same_resources_def
      split: option.splits dest!: uio_find_loop_resources)

text \<open>
  A failed open leaves no descriptor, mapping or stream behind; a successful one holds exactly
  its descriptor and its mapping.
\<close>

lemma uio_open_resources:
  assumes "uio_open name w = ((rc, u), w')"
  shows "if rc = 0
      then open_files (hist w') = open_files (hist w) \<and>
           open_fds (hist w') = add_mset (u_fd u) (open_fds (hist w)) \<and> 0 \<le> u_fd u \<and>
           mappings (hist w') = add_mset (u_regs u, u_map_size u) (mappings (hist w)) \<and> u_regs u \<noteq> map_failed \<and>
           \<not> u_irq_ok u
      else rc = -1 \<and> same_resources w w'"
proof -
  obtain rc1 dev nm w1 where f: "(if take 5 name = ''/dev/''
      then ((0, snprintf_buf 64 name, snprintf_buf 64 (drop 5 name)), w)
      else uio_find name 64 64 w) = ((rc1, dev, nm), w1)" by (metis prod.exhaust)
  then have 1: "same_resources w w1" by (auto split: if_splits dest: uio_find_resources)
  obtain rc2 attr w2 where l: "sysfs_read_line (snprintf_buf 300
      (''/sys/class/uio/'' @ drop 5 dev @ ''/maps/map0/size'')) 64 w1 = ((rc2, attr), w2)"
    by (metis prod.exhaust)
  then have 2: "same_resources w w2" using 1 by (blast intro: same_resources_trans sysfs_read_line_resources)
  show ?thesis
    using assms 1 2 unfolding uio_open_def Let_def f case_prod_conv l
    by (auto simp: uio_zero_def sys_open_def sys_mmap_def sys_close_def Let_def same_resources_def
        split: if_splits)
qed

lemma uio_close_resources:
  assumes "uio_close u w = (u', w')" and "0 \<le> u_fd u" and "u_regs u \<noteq> null_ptr" and "u_regs u \<noteq> map_failed"
  shows "open_fds (hist w') = open_fds (hist w) - {#u_fd u#}"
    "mappings (hist w') = mappings (hist w) - {#(u_regs u, u_map_size u)#}"
    "open_files (hist w') = open_files (hist w)"
  using assms by (auto simp: uio_close_def Let_def sys_close_def sys_munmap_def)

lemma uio_irq_enable_emits: "uio_irq_enable u w = ((rc, u'), w') \<Longrightarrow> emits (on_fd (u_fd u)) w w'"
  by (auto simp: uio_irq_enable_def sys_write_def Let_def split: if_splits intro!: emits_log)

lemma poll_loop_emits: "c_loop (poll_body u ms) () w = Some (rc, w1) \<Longrightarrow> emits (on_fd (u_fd u)) w w1"
  by (erule emits_loop) (auto simp: poll_body_def sys_poll_def Let_def intro!: emits_log)

lemma uio_irq_wait_emits:
  assumes "uio_irq_wait u ms w = Some ((rc, u'), w')"
  shows "emits (on_fd (u_fd u)) w w'"
proof -
  from assms obtain p w1 where 1: "c_loop (poll_body u ms) () w = Some (p, w1)"
    by (auto simp: uio_irq_wait_def split: Option.bind_splits)
  obtain n w2 where 2: "sys_read (u_fd u) None 4 w1 = (n, w2)" by force
  obtain rc3 u3 w3 where 3: "uio_irq_enable u w2 = ((rc3, u3), w3)" by (metis prod.exhaust)
  have "emits (on_fd (u_fd u)) w1 w2"
    using 2 by (auto simp: sys_read_def Let_def intro!: emits_log)
  with poll_loop_emits [OF 1] uio_irq_enable_emits [OF 3] show ?thesis
    using assms 1 2 3
    by (auto simp: uio_irq_wait_def intro: emits_trans split: if_splits rres.splits)
qed

text \<open>
  The waits sleep on the interrupt only after it was enabled once; re-enabling it then leaves
  the structure as it was, whatever the kernel answers.
\<close>

lemma uio_irq_wait_same: "u_irq_ok u \<Longrightarrow> uio_irq_wait u ms w = Some ((rc, u'), w') \<Longrightarrow> u' = u"
  by (auto simp: uio_irq_wait_def uio_irq_enable_def Let_def
      split: Option.bind_splits if_splits prod.splits rres.splits)

text \<open>A wait on the interrupt comes back when signals stop interrupting it.\<close>

lemma uio_irq_wait_returns:
  assumes "poll_intr_bound (world_env w) (u_fd u) k"
  shows "returns (uio_irq_wait u ms w)"
proof -
  have "returns (c_loop (poll_body u ms) () w)"
  proof (rule c_loop_total [where I = "\<lambda>_ w1. world_env w1 = world_env w"
        and m = "\<lambda>_ w1. k - poll_intrs (u_fd u) w1"])
    fix s s1 v v1
    assume "world_env v = world_env w" and "poll_body u ms s v = Some (Inl s1, v1)"
    then show "world_env v1 = world_env w \<and> k - poll_intrs (u_fd u) v1 < k - poll_intrs (u_fd u) v"
      using assms
      by (auto simp: poll_body_def sys_poll_def Let_def poll_intrs_def poll_intr_bound_def
          split: if_splits) (meson diff_less_mono2 lessI not_less)
  qed (auto simp: poll_body_def split: prod.splits)
  then show ?thesis
    by (auto simp: uio_irq_wait_def split: prod.splits rres.splits)
qed

end
