(* ===== verification/OJLS_Udmabuf.thy ===== *)
theory OJLS_Udmabuf
  imports OJLS_Uio
begin

text \<open>
  \<open>udmabuf.h\<close> and \<open>udmabuf.c\<close>: discovery and mapping of the DMA buffers, and the cache
  hand-over protocol of u-dma-buf, which stages an offset, a size and a direction in three
  sysfs attributes before it kicks the transfer of ownership with a fourth. The interface
  \<open>cache_sync\<close> states what a successful hand-over has written, for both directions.
\<close>

section \<open>State\<close>

record udmabuf =
  b_fd :: int
  b_mem :: addr
  b_size :: size_t
  b_phys :: u64
  b_name :: string

definition udmabuf_zero :: udmabuf where
  "udmabuf_zero = \<lparr>b_fd = 0, b_mem = null_ptr, b_size = 0, b_phys = 0, b_name = []\<rparr>"

definition UDMABUF_CLASS :: string where
  "UDMABUF_CLASS = ''/sys/class/u-dma-buf''"

section \<open>Attributes\<close>

definition udmabuf_sysfs_read_line :: "string \<Rightarrow> nat \<Rightarrow> world \<Rightarrow> (int \<times> string) \<times> world" where
  "udmabuf_sysfs_read_line path len w =
     (let (ok, w1) = sys_fopen path ''r'' w
      in if \<not> ok then ((-1, []), w1)
         else (let (line, w2) = sys_fgets path w1;
                   (_, w3) = sys_fclose path w2
               in case line of
                    None \<Rightarrow> ((-1, []), w3)
                  | Some s \<Rightarrow> ((0, takeWhile (\<lambda>c. c \<noteq> CHR 0x0A) (cstr (take (len - 1) s))), w3)))"

definition attr_path :: "string \<Rightarrow> string \<Rightarrow> string" where
  "attr_path name attr = snprintf_buf 300 (UDMABUF_CLASS @ ''/'' @ name @ ''/'' @ attr)"

definition attr_write :: "string \<Rightarrow> string \<Rightarrow> size_t \<Rightarrow> world \<Rightarrow> int \<times> world" where
  "attr_write name attr value w =
     (let path = attr_path name attr;
          (ok, w1) = sys_fopen path ''w'' w
      in if \<not> ok then (-1, w1)
         else (let (printed, w2) = sys_fprintf_lu path value w1;
                   rc = (if printed then 0 else -1);
                   (closed, w3) = sys_fclose path w2
               in (if \<not> closed then -1 else rc, w3)))"

section \<open>Discovery\<close>

definition name_filter :: "string \<Rightarrow> bool" where
  "name_filter ent \<longleftrightarrow> take 1 ent \<noteq> ''.''"

text \<open>\<open>scandir\<close> with \<open>alphasort\<close>: the filtered entries in the order of \<open>strcmp\<close>.\<close>

definition scan_class :: "world \<Rightarrow> string list option \<times> world" where
  "scan_class w =
     (let (ents, w1) = sys_listdir UDMABUF_CLASS w
      in (map_option (\<lambda>es. sort (filter name_filter es)) ents, w1))"

definition udmabuf_count :: "world \<Rightarrow> nat \<times> world" where
  "udmabuf_count w =
     (let (l, w1) = scan_class w in (case l of None \<Rightarrow> 0 | Some es \<Rightarrow> length es, w1))"

section \<open>Opening and closing\<close>

definition udmabuf_open :: "string \<Rightarrow> world \<Rightarrow> (int \<times> udmabuf) \<times> world" where
  "udmabuf_open name w =
     (let b0 = udmabuf_zero\<lparr>b_fd := -1, b_name := snprintf_buf 64 name\<rparr>;
          ((rc, attr), w1) = udmabuf_sysfs_read_line (attr_path name ''phys_addr'') 64 w
      in if rc \<noteq> 0 then ((-1, b0), w1)
         else
           (let b1 = b0\<lparr>b_phys := of_nat (strtoul0 64 attr)\<rparr>;
                ((rc2, attr2), w2) = udmabuf_sysfs_read_line (attr_path name ''size'') 64 w1
            in if rc2 \<noteq> 0 then ((-1, b1), w2)
               else
                 (let b2 = b1\<lparr>b_size := ucast (of_nat (strtoul0 64 attr2) :: u64)\<rparr>;
                      (fd, w3) = sys_open (snprintf_buf 300 (''/dev/'' @ name)) w2;
                      b3 = b2\<lparr>b_fd := fd\<rparr>
                  in if fd < 0 then ((-1, b3), w3)
                     else
                       (let (a, w4) = sys_mmap fd (b_size b3) w3;
                            b4 = b3\<lparr>b_mem := a\<rparr>
                        in if a = map_failed
                           then ((-1, b4\<lparr>b_fd := -1\<rparr>), sys_close fd w4)
                           else ((0, b4), w4)))))"

text \<open>
  \<open>None\<close> for the structure: the function returns before it touches \<open>*b\<close>. The index is a
  position in the sorted list.
\<close>

definition udmabuf_open_nth :: "nat \<Rightarrow> world \<Rightarrow> (int \<times> udmabuf option) \<times> world" where
  "udmabuf_open_nth index w =
     (let (l, w1) = scan_class w
      in case l of
           None \<Rightarrow> ((-1, None), w1)
         | Some es \<Rightarrow>
             if index < length es
             then (let ((rc, b), w2) = udmabuf_open (es ! index) w1 in ((rc, Some b), w2))
             else ((-1, None), w1))"

definition udmabuf_close :: "udmabuf \<Rightarrow> world \<Rightarrow> udmabuf \<times> world" where
  "udmabuf_close b w =
     (let w1 = (if b_mem b \<noteq> null_ptr \<and> b_mem b \<noteq> map_failed
                then sys_munmap (b_mem b) (b_size b) w else w);
          w2 = (if 0 \<le> b_fd b then sys_close (b_fd b) w1 else w1)
      in (b\<lparr>b_mem := null_ptr, b_fd := -1\<rparr>, w2))"

section \<open>Cache hand-over\<close>

definition udmabuf_sync :: "udmabuf \<Rightarrow> size_t \<Rightarrow> size_t \<Rightarrow> size_t \<Rightarrow> string \<Rightarrow> world \<Rightarrow> int \<times> world" where
  "udmabuf_sync b offset len dir kick w =
     (let (r1, w1) = attr_write (b_name b) ''sync_offset'' offset w
      in if r1 \<noteq> 0 then (-1, w1)
         else (let (r2, w2) = attr_write (b_name b) ''sync_size'' len w1
               in if r2 \<noteq> 0 then (-1, w2)
                  else (let (r3, w3) = attr_write (b_name b) ''sync_direction'' dir w2
                        in if r3 \<noteq> 0 then (-1, w3)
                           else (let (r4, w4) = attr_write (b_name b) kick 1 w3
                                 in if r4 \<noteq> 0 then (-1, w4) else (0, w4)))))"

definition udmabuf_sync_for_device :: "udmabuf \<Rightarrow> size_t \<Rightarrow> size_t \<Rightarrow> world \<Rightarrow> int \<times> world" where
  "udmabuf_sync_for_device b offset len w = udmabuf_sync b offset len 1 ''sync_for_device'' w"

definition udmabuf_sync_for_cpu :: "udmabuf \<Rightarrow> size_t \<Rightarrow> size_t \<Rightarrow> world \<Rightarrow> int \<times> world" where
  "udmabuf_sync_for_cpu b offset len w = udmabuf_sync b offset len 2 ''sync_for_cpu'' w"

section \<open>What the operations do to the world\<close>

lemma udmabuf_sysfs_read_line_eq: "udmabuf_sysfs_read_line = sysfs_read_line"
  by (intro ext) (simp add: udmabuf_sysfs_read_line_def sysfs_read_line_def)

lemma udmabuf_open_resources:
  assumes "udmabuf_open name w = ((rc, b), w')"
  shows "if rc = 0
      then open_files (hist w') = open_files (hist w) \<and>
           open_fds (hist w') = add_mset (b_fd b) (open_fds (hist w)) \<and> 0 \<le> b_fd b \<and>
           mappings (hist w') = add_mset (b_mem b, b_size b) (mappings (hist w)) \<and> b_mem b \<noteq> map_failed
      else rc = -1 \<and> same_resources w w'"
proof -
  obtain rc1 attr1 w1 where 1: "sysfs_read_line (attr_path name ''phys_addr'') 64 w = ((rc1, attr1), w1)"
    by (metis prod.exhaust)
  obtain rc2 attr2 w2 where 2: "sysfs_read_line (attr_path name ''size'') 64 w1 = ((rc2, attr2), w2)"
    by (metis prod.exhaust)
  show ?thesis
    using assms 1 2 sysfs_read_line_resources [OF 1] sysfs_read_line_resources [OF 2]
    by (auto simp: udmabuf_open_def udmabuf_sysfs_read_line_eq udmabuf_zero_def Let_def
        sys_open_def sys_mmap_def sys_close_def same_resources_def split: if_splits)
qed

lemma udmabuf_close_resources:
  assumes "udmabuf_close b w = (b', w')" and "0 \<le> b_fd b" and "b_mem b \<noteq> null_ptr" and "b_mem b \<noteq> map_failed"
  shows "open_fds (hist w') = open_fds (hist w) - {#b_fd b#}"
    "mappings (hist w') = mappings (hist w) - {#(b_mem b, b_size b)#}"
    "open_files (hist w') = open_files (hist w)"
  using assms by (auto simp: udmabuf_close_def Let_def sys_close_def sys_munmap_def)

text \<open>Attribute traffic: opening, printing to and closing sysfs files.\<close>

fun is_attr :: "event \<Rightarrow> bool" where
  "is_attr (EvFopen p m ok) = True"
| "is_attr (EvFprintf p v ok) = True"
| "is_attr (EvFclose p ok) = True"
| "is_attr _ = False"

lemma is_attr_quiet: "is_attr e \<Longrightarrow> \<not> is_read fd e \<and> \<not> is_write fd e"
  by (cases e) auto

text \<open>The attribute values the program has written, newest first.\<close>

fun attrs_written :: "event list \<Rightarrow> (string \<times> size_t) list" where
  "attrs_written [] = []"
| "attrs_written (EvFprintf path v ok # h) = (if ok then (path, v) # attrs_written h else attrs_written h)"
| "attrs_written (_ # h) = attrs_written h"

lemma attr_write_contract:
  assumes "attr_write name attr v w = (rc, w')"
  shows "emits is_attr w w'"
    and "rc = 0 \<Longrightarrow> attrs_written (hist w') = (attr_path name attr, v) # attrs_written (hist w)"
    and "same_resources w w'"
  using assms
  by (auto simp: attr_write_def sys_fopen_def sys_fprintf_lu_def sys_fclose_def Let_def
      same_resources_def split: if_splits intro!: emits_log)

lemma udmabuf_sync_contract:
  assumes "udmabuf_sync b off len dir kick w = (rc, w')"
  shows "emits is_attr w w'" and "same_resources w w'"
    and "rc = 0 \<Longrightarrow> attrs_written (hist w') =
      [(attr_path (b_name b) kick, 1), (attr_path (b_name b) ''sync_direction'', dir),
       (attr_path (b_name b) ''sync_size'', len), (attr_path (b_name b) ''sync_offset'', off)]
      @ attrs_written (hist w)"
proof -
  obtain r1 w1 where 1: "attr_write (b_name b) ''sync_offset'' off w = (r1, w1)" by force
  obtain r2 w2 where 2: "attr_write (b_name b) ''sync_size'' len w1 = (r2, w2)" by force
  obtain r3 w3 where 3: "attr_write (b_name b) ''sync_direction'' dir w2 = (r3, w3)" by force
  obtain r4 w4 where 4: "attr_write (b_name b) kick 1 w3 = (r4, w4)" by force
  note c = attr_write_contract
  show "emits is_attr w w'"
    using assms 1 2 3 4 c(1) [OF 1] c(1) [OF 2] c(1) [OF 3] c(1) [OF 4]
    by (auto simp: udmabuf_sync_def split: if_splits intro: emits_trans)
  show "same_resources w w'"
    using assms 1 2 3 4 c(3) [OF 1] c(3) [OF 2] c(3) [OF 3] c(3) [OF 4]
    by (auto simp: udmabuf_sync_def split: if_splits intro: same_resources_trans)
  show "rc = 0 \<Longrightarrow> attrs_written (hist w') =
      [(attr_path (b_name b) kick, 1), (attr_path (b_name b) ''sync_direction'', dir),
       (attr_path (b_name b) ''sync_size'', len), (attr_path (b_name b) ''sync_offset'', off)]
      @ attrs_written (hist w)"
    using assms 1 2 3 4 c(2) [OF 1] c(2) [OF 2] c(2) [OF 3] c(2) [OF 4]
    by (auto simp: udmabuf_sync_def split: if_splits)
qed

section \<open>The hand-over as an interface\<close>

text \<open>
  What a user of the DMA buffers relies on: a hand-over only touches sysfs attributes, keeps
  no file open, and when it reports success has staged the offset, the size and the direction,
  in this order, before the kick.
\<close>

locale cache_sync =
  fixes sync :: "udmabuf \<Rightarrow> size_t \<Rightarrow> size_t \<Rightarrow> world \<Rightarrow> int \<times> world"
    and kick :: string
    and dir :: size_t
  assumes sync_emits: "sync b off len w = (rc, w') \<Longrightarrow> emits is_attr w w'"
    and sync_resources: "sync b off len w = (rc, w') \<Longrightarrow> same_resources w w'"
    and sync_written: "sync b off len w = (0, w') \<Longrightarrow> attrs_written (hist w') =
      [(attr_path (b_name b) kick, 1), (attr_path (b_name b) ''sync_direction'', dir),
       (attr_path (b_name b) ''sync_size'', len), (attr_path (b_name b) ''sync_offset'', off)]
      @ attrs_written (hist w)"
begin

lemma sync_wire: "sync b off len w = (rc, w') \<Longrightarrow> sent fd w' = sent fd w \<and> rcvd fd w' = rcvd fd w"
  by (intro conjI sent_emits rcvd_emits; rule emits_mono [OF sync_emits]; simp add: is_attr_quiet)

lemma sync_env: "sync b off len w = (rc, w') \<Longrightarrow> world_env w' = world_env w"
  by (rule emits_env [OF sync_emits])

end

interpretation to_device: cache_sync udmabuf_sync_for_device "''sync_for_device''" 1
  by unfold_locales (auto simp: udmabuf_sync_for_device_def dest: udmabuf_sync_contract)

interpretation to_cpu: cache_sync udmabuf_sync_for_cpu "''sync_for_cpu''" 2
  by unfold_locales (auto simp: udmabuf_sync_for_cpu_def dest: udmabuf_sync_contract)

end
