(* ===== verification/OJLS_Axidma.thy ===== *)
theory OJLS_Axidma
  imports OJLS_Udmabuf
begin

text \<open>
  \<open>axidma.h\<close> and \<open>axidma.c\<close>: the scatter/gather driver of the AXI DMA. Descriptor rings, the
  start of a channel, the reset and the two waits, translated operation by operation.
\<close>

unbundle bit_operations_syntax

section \<open>Registers and bit fields\<close>

definition AXIDMA_MM2S :: u32 where [consts_defs]: "AXIDMA_MM2S = 0x00"
definition AXIDMA_S2MM :: u32 where [consts_defs]: "AXIDMA_S2MM = 0x30"

definition AXIDMA_CR :: "u32 \<Rightarrow> u32" where [consts_defs]: "AXIDMA_CR chan = chan + 0x00"
definition AXIDMA_SR :: "u32 \<Rightarrow> u32" where [consts_defs]: "AXIDMA_SR chan = chan + 0x04"
definition AXIDMA_CURDESC :: "u32 \<Rightarrow> u32" where [consts_defs]: "AXIDMA_CURDESC chan = chan + 0x08"
definition AXIDMA_CURDESC_MSB :: "u32 \<Rightarrow> u32" where [consts_defs]: "AXIDMA_CURDESC_MSB chan = chan + 0x0C"
definition AXIDMA_TAILDESC :: "u32 \<Rightarrow> u32" where [consts_defs]: "AXIDMA_TAILDESC chan = chan + 0x10"
definition AXIDMA_TAILDESC_MSB :: "u32 \<Rightarrow> u32" where [consts_defs]: "AXIDMA_TAILDESC_MSB chan = chan + 0x14"

definition AXIDMA_CR_RS :: u32 where [consts_defs]: "AXIDMA_CR_RS = push_bit 0 1"
definition AXIDMA_CR_RESET :: u32 where [consts_defs]: "AXIDMA_CR_RESET = push_bit 2 1"
definition AXIDMA_CR_IOC_IRQ :: u32 where [consts_defs]: "AXIDMA_CR_IOC_IRQ = push_bit 12 1"
definition AXIDMA_CR_ERR_IRQ :: u32 where [consts_defs]: "AXIDMA_CR_ERR_IRQ = push_bit 14 1"

definition AXIDMA_SR_HALTED :: u32 where [consts_defs]: "AXIDMA_SR_HALTED = push_bit 0 1"
definition AXIDMA_SR_IDLE :: u32 where [consts_defs]: "AXIDMA_SR_IDLE = push_bit 1 1"
definition AXIDMA_SR_INT_ERR :: u32 where [consts_defs]: "AXIDMA_SR_INT_ERR = push_bit 4 1"
definition AXIDMA_SR_SLV_ERR :: u32 where [consts_defs]: "AXIDMA_SR_SLV_ERR = push_bit 5 1"
definition AXIDMA_SR_DEC_ERR :: u32 where [consts_defs]: "AXIDMA_SR_DEC_ERR = push_bit 6 1"
definition AXIDMA_SR_IOC :: u32 where [consts_defs]: "AXIDMA_SR_IOC = push_bit 12 1"
definition AXIDMA_SR_ERR :: u32 where [consts_defs]: "AXIDMA_SR_ERR = push_bit 14 1"
definition AXIDMA_SR_ANY_ERR :: u32 where [consts_defs]:
  "AXIDMA_SR_ANY_ERR = AXIDMA_SR_INT_ERR OR AXIDMA_SR_SLV_ERR OR AXIDMA_SR_DEC_ERR OR AXIDMA_SR_ERR"

definition AXIDMA_DESC_LEN_MASK :: u32 where [consts_defs]: "AXIDMA_DESC_LEN_MASK = 0x03FFFFFF"
definition AXIDMA_DESC_EOF :: u32 where [consts_defs]: "AXIDMA_DESC_EOF = push_bit 26 1"
definition AXIDMA_DESC_SOF :: u32 where [consts_defs]: "AXIDMA_DESC_SOF = push_bit 27 1"
definition AXIDMA_DESC_CMPLT :: u32 where [consts_defs]: "AXIDMA_DESC_CMPLT = push_bit 31 1"
definition AXIDMA_DESC_ERR_MASK :: u32 where [consts_defs]: "AXIDMA_DESC_ERR_MASK = push_bit 28 7"
definition AXIDMA_DESC_CHUNK :: u32 where [consts_defs]: "AXIDMA_DESC_CHUNK = 32 * 1024 * 1024"

section \<open>State\<close>

record axidma_desc =
  d_nxtdesc :: u32
  d_nxtdesc_msb :: u32
  d_buffer_addr :: u32
  d_buffer_msb :: u32
  d_rsvd0 :: u32
  d_rsvd1 :: u32
  d_control :: u32
  d_status :: u32
  d_app :: "u32 list"
  d_pad :: "u32 list"

text \<open>\<open>sizeof(struct axidma_desc)\<close>, and the structure as its 16 words in memory.\<close>

definition desc_size :: nat where [consts_defs]: "desc_size = 64"

definition desc_words :: "axidma_desc \<Rightarrow> u32 list" where
  "desc_words d =
     [d_nxtdesc d, d_nxtdesc_msb d, d_buffer_addr d, d_buffer_msb d, d_rsvd0 d, d_rsvd1 d,
      d_control d, d_status d] @ d_app d @ d_pad d"

definition desc_zero :: axidma_desc where
  "desc_zero = \<lparr>d_nxtdesc = 0, d_nxtdesc_msb = 0, d_buffer_addr = 0, d_buffer_msb = 0, d_rsvd0 = 0,
     d_rsvd1 = 0, d_control = 0, d_status = 0, d_app = replicate 5 0, d_pad = replicate 3 0\<rparr>"

record axidma_ring =
  r_db :: udmabuf
  r_off :: size_t
  r_desc :: addr
  r_phys :: u64
  r_count :: int

record axidma =
  dma_uio :: uio

text \<open>Addresses of \<open>ring->desc[i]\<close> and of its \<open>status\<close> word, at offset 0x1C.\<close>

definition desc_addr :: "axidma_ring \<Rightarrow> nat \<Rightarrow> addr" where
  "desc_addr ring i = r_desc ring + of_nat (i * desc_size)"

definition status_addr :: "axidma_ring \<Rightarrow> nat \<Rightarrow> addr" where
  "status_addr ring i = desc_addr ring i + 0x1C"

section \<open>Time\<close>

definition now_ms :: "world \<Rightarrow> int \<times> world" where
  "now_ms w = (let ((sec, nsec), w1) = sys_clock w in (sec * 1000 + nsec div 1000000, w1))"

definition msleep_short :: "world \<Rightarrow> world" where
  "msleep_short w = sys_nanosleep (100 * 1000) w"

section \<open>Reset, open, close\<close>

definition reset_busy :: "axidma \<Rightarrow> world \<Rightarrow> bool \<times> world" where
  "reset_busy d w =
     (let (c1, w1) = uio_rd (dma_uio d) (AXIDMA_CR AXIDMA_MM2S) w
      in if c1 AND AXIDMA_CR_RESET \<noteq> 0 then (True, w1)
         else (let (c2, w2) = uio_rd (dma_uio d) (AXIDMA_CR AXIDMA_S2MM) w1
               in (c2 AND AXIDMA_CR_RESET \<noteq> 0, w2)))"

definition reset_body :: "axidma \<Rightarrow> int \<Rightarrow> unit \<Rightarrow> (unit + int) io" where
  "reset_body d deadline s w =
     (let (busy, w1) = reset_busy d w
      in if busy then
           (let (t, w2) = now_ms w1
            in if t > deadline then Some (Inr (-1), w2) else Some (Inl (), msleep_short w2))
         else Some (Inr 0, w1))"

definition axidma_reset :: "axidma \<Rightarrow> int io" where
  "axidma_reset d w =
     (let (t, w1) = now_ms w;
          deadline = t + 100;
          w2 = uio_wr (dma_uio d) (AXIDMA_CR AXIDMA_MM2S) AXIDMA_CR_RESET w1;
          w3 = uio_wr (dma_uio d) (AXIDMA_CR AXIDMA_S2MM) AXIDMA_CR_RESET w2
      in c_loop (reset_body d deadline) () w3)"

definition axidma_open :: "string \<Rightarrow> (int \<times> axidma) io" where
  "axidma_open name_or_path w =
     (let ((rc, u), w1) = uio_open name_or_path w; d = \<lparr>dma_uio = u\<rparr>
      in if rc \<noteq> 0 then Some ((-1, d), w1)
         else do {
           (rr, w2) \<leftarrow> axidma_reset d w1;
           if rr \<noteq> 0 then (let (u1, w3) = uio_close u w2 in Some ((-1, \<lparr>dma_uio = u1\<rparr>), w3))
           else (let ((_, u1), w3) = uio_irq_enable u w2 in Some ((0, \<lparr>dma_uio = u1\<rparr>), w3))
         })"

definition axidma_close :: "axidma \<Rightarrow> world \<Rightarrow> axidma \<times> world" where
  "axidma_close d w = (let (u, w1) = uio_close (dma_uio d) w in (\<lparr>dma_uio = u\<rparr>, w1))"

section \<open>Building a ring\<close>

text \<open>
  One round of the descriptor loop: the descriptor for index \<open>i\<close>, with \<open>remaining\<close> bytes to
  go from the bus address \<open>adr\<close>.
\<close>

definition ring_len :: "u32 \<Rightarrow> u64 \<Rightarrow> u32" where
  "ring_len chunk remaining = (if remaining > ucast chunk then chunk else ucast remaining)"

definition ring_desc :: "axidma_ring \<Rightarrow> u32 \<Rightarrow> bool \<Rightarrow> nat \<Rightarrow> u64 \<Rightarrow> u64 \<Rightarrow> axidma_desc" where
  "ring_desc ring chunk frame i remaining adr =
     (let this_len = ring_len chunk remaining;
          next_desc = (if int i = r_count ring - 1 then r_phys ring
                       else r_phys ring + of_nat (i + 1) * of_nat desc_size);
          ctrl0 = this_len AND AXIDMA_DESC_LEN_MASK;
          ctrl1 = (if frame \<and> i = 0 then ctrl0 OR AXIDMA_DESC_SOF else ctrl0);
          ctrl2 = (if frame \<and> int i = r_count ring - 1 then ctrl1 OR AXIDMA_DESC_EOF else ctrl1)
      in desc_zero\<lparr>d_nxtdesc := ucast next_desc, d_nxtdesc_msb := ucast (drop_bit 32 next_desc),
           d_buffer_addr := ucast adr, d_buffer_msb := ucast (drop_bit 32 adr), d_control := ctrl2\<rparr>)"

fun ring_fill :: "axidma_ring \<Rightarrow> u32 \<Rightarrow> bool \<Rightarrow> nat \<Rightarrow> nat \<Rightarrow> u64 \<Rightarrow> u64 \<Rightarrow> world \<Rightarrow> world" where
  "ring_fill ring chunk frame 0 i remaining adr w = w"
| "ring_fill ring chunk frame (Suc k) i remaining adr w =
     (let this_len = ring_len chunk remaining
      in ring_fill ring chunk frame k (Suc i) (remaining - ucast this_len) (adr + ucast this_len)
           (mem_store (desc_addr ring i) (desc_words (ring_desc ring chunk frame i remaining adr)) w))"

text \<open>\<open>None\<close>: the function returns -1, before it writes \<open>*ring\<close>; \<open>Some ring\<close>: it returns 0.\<close>

definition axidma_ring_build ::
  "udmabuf \<Rightarrow> size_t \<Rightarrow> size_t \<Rightarrow> u64 \<Rightarrow> u64 \<Rightarrow> u32 \<Rightarrow> bool \<Rightarrow> world \<Rightarrow> axidma_ring option \<times> world"
where
  "axidma_ring_build db desc_off desc_cap buf_phys len chunk frame w =
     (if len = 0 then (None, w)
      else if desc_off AND 0x3F \<noteq> 0 \<or> (b_phys db + ucast desc_off) AND 0x3F \<noteq> 0 then (None, w)
      else
        (let nchunks = (len + ucast chunk - 1) div ucast chunk
         in if nchunks * of_nat desc_size > ucast desc_cap then (None, w)
            else
              (let ring = \<lparr>r_db = db, r_off = desc_off, r_desc = b_mem db + desc_off,
                           r_phys = b_phys db + ucast desc_off, r_count = sint (ucast nchunks :: u32)\<rparr>
               in (Some ring, ring_fill ring chunk frame (nat (r_count ring)) 0 len buf_phys w))))"

section \<open>Starting a channel\<close>

definition axidma_sg_start :: "axidma \<Rightarrow> u32 \<Rightarrow> axidma_ring \<Rightarrow> world \<Rightarrow> int \<times> world" where
  "axidma_sg_start d chan ring w =
     (if r_count ring \<le> 0 then (-1, w)
      else
        (let first = r_phys ring;
             tail = r_phys ring + of_int (r_count ring - 1) * of_nat desc_size;
             w1 = uio_wr (dma_uio d) (AXIDMA_CURDESC chan) (ucast first) w;
             w2 = uio_wr (dma_uio d) (AXIDMA_CURDESC_MSB chan) (ucast (drop_bit 32 first)) w1;
             w3 = uio_wr (dma_uio d) (AXIDMA_CR chan)
                    (AXIDMA_CR_RS OR AXIDMA_CR_IOC_IRQ OR AXIDMA_CR_ERR_IRQ) w2;
             w4 = uio_wr (dma_uio d) (AXIDMA_SR chan) (AXIDMA_SR_IOC OR AXIDMA_SR_ERR) w3;
             w5 = uio_wr (dma_uio d) (AXIDMA_TAILDESC_MSB chan) (ucast (drop_bit 32 tail)) w4;
             w6 = uio_wr (dma_uio d) (AXIDMA_TAILDESC chan) (ucast tail) w5
         in (0, w6)))"

section \<open>Waiting\<close>

text \<open>
  The status scan of \<open>axidma_wait\<close>: \<open>None\<close> when a descriptor carries an error, otherwise
  whether the end of the frame was found, where the scan stops.
\<close>

fun wait_scan :: "axidma_ring \<Rightarrow> nat \<Rightarrow> nat \<Rightarrow> world \<Rightarrow> bool option \<times> world" where
  "wait_scan ring 0 i w = (Some False, w)"
| "wait_scan ring (Suc k) i w =
     (let (st, w1) = mem_load (status_addr ring i) w
      in if st AND AXIDMA_DESC_ERR_MASK \<noteq> 0 then (None, w1)
         else if st AND AXIDMA_DESC_EOF \<noteq> 0 then (Some True, w1)
         else wait_scan ring k (Suc i) w1)"

text \<open>The sleep between two rounds; the structure that \<open>uio_irq_wait\<close> gives back is unchanged.\<close>

definition wait_idle :: "axidma \<Rightarrow> world \<Rightarrow> ((unit + int) \<times> world) option" where
  "wait_idle d w =
     (if u_irq_ok (dma_uio d)
      then do { (_, w1) \<leftarrow> uio_irq_wait (dma_uio d) 10 w; Some (Inl (), w1) }
      else Some (Inl (), msleep_short w))"

definition ring_nbytes :: "axidma_ring \<Rightarrow> size_t" where
  "ring_nbytes ring = of_int (r_count ring) * of_nat desc_size"

definition wait_body :: "axidma \<Rightarrow> u32 \<Rightarrow> axidma_ring \<Rightarrow> int \<Rightarrow> unit \<Rightarrow> (unit + int) io" where
  "wait_body d chan ring deadline s w =
     (let (sr, w1) = uio_rd (dma_uio d) (AXIDMA_SR chan) w
      in if sr AND AXIDMA_SR_ANY_ERR \<noteq> 0 then Some (Inr (-1), w1)
         else
           (let (sy, w2) = udmabuf_sync_for_cpu (r_db ring) (r_off ring) (ring_nbytes ring) w1
            in if sy \<noteq> 0 then Some (Inr (-1), w2)
               else
                 (let (scan, w3) = wait_scan ring (nat (r_count ring)) 0 w2
                  in case scan of
                       None \<Rightarrow> Some (Inr (-1), w3)
                     | Some eof \<Rightarrow>
                         (let (last_st, w4) = mem_load (status_addr ring (nat (r_count ring - 1))) w3
                          in if chan = AXIDMA_S2MM \<and> eof then Some (Inr 0, w4)
                             else if last_st AND AXIDMA_DESC_CMPLT \<noteq> 0
                             then Some (Inr (if chan = AXIDMA_S2MM then -1 else 0), w4)
                             else
                               (let (t, w5) = now_ms w4
                                in if t > deadline then Some (Inr (-2), w5) else wait_idle d w5)))))"

definition axidma_wait :: "axidma \<Rightarrow> u32 \<Rightarrow> axidma_ring \<Rightarrow> int \<Rightarrow> int io" where
  "axidma_wait d chan ring timeout_ms w =
     (let (t, w1) = now_ms w in c_loop (wait_body d chan ring (t + timeout_ms)) () w1)"

text \<open>The scan of \<open>axidma_wait_packets\<close>: no descriptor in error, none complete without its end.\<close>

fun packets_scan :: "axidma_ring \<Rightarrow> nat \<Rightarrow> nat \<Rightarrow> world \<Rightarrow> bool \<times> world" where
  "packets_scan ring 0 i w = (True, w)"
| "packets_scan ring (Suc k) i w =
     (let (st, w1) = mem_load (status_addr ring i) w
      in if st AND AXIDMA_DESC_ERR_MASK \<noteq> 0 then (False, w1)
         else if st AND AXIDMA_DESC_CMPLT \<noteq> 0 \<and> st AND AXIDMA_DESC_EOF = 0 then (False, w1)
         else packets_scan ring k (Suc i) w1)"

definition wait_packets_body :: "axidma \<Rightarrow> axidma_ring \<Rightarrow> int \<Rightarrow> unit \<Rightarrow> (unit + int) io" where
  "wait_packets_body d ring deadline s w =
     (let (sr, w1) = uio_rd (dma_uio d) (AXIDMA_SR AXIDMA_S2MM) w
      in if sr AND AXIDMA_SR_ANY_ERR \<noteq> 0 then Some (Inr (-1), w1)
         else
           (let (sy, w2) = udmabuf_sync_for_cpu (r_db ring) (r_off ring) (ring_nbytes ring) w1
            in if sy \<noteq> 0 then Some (Inr (-1), w2)
               else
                 (let (ok, w3) = packets_scan ring (nat (r_count ring)) 0 w2
                  in if \<not> ok then Some (Inr (-1), w3)
                     else
                       (let (last_st, w4) = mem_load (status_addr ring (nat (r_count ring - 1))) w3
                        in if last_st AND AXIDMA_DESC_CMPLT \<noteq> 0 then Some (Inr 0, w4)
                           else
                             (let (t, w5) = now_ms w4
                              in if t > deadline then Some (Inr (-2), w5) else wait_idle d w5)))))"

definition axidma_wait_packets :: "axidma \<Rightarrow> axidma_ring \<Rightarrow> int \<Rightarrow> int io" where
  "axidma_wait_packets d ring timeout_ms w =
     (let (t, w1) = now_ms w in c_loop (wait_packets_body d ring (t + timeout_ms)) () w1)"

section \<open>The bytes a ring received\<close>

fun ring_bytes_loop :: "axidma_ring \<Rightarrow> nat \<Rightarrow> nat \<Rightarrow> u32 \<Rightarrow> world \<Rightarrow> u32 \<times> world" where
  "ring_bytes_loop ring 0 i tot w = (tot, w)"
| "ring_bytes_loop ring (Suc k) i tot w =
     (let (st, w1) = mem_load (status_addr ring i) w;
          tot1 = tot + (st AND AXIDMA_DESC_LEN_MASK)
      in if st AND AXIDMA_DESC_EOF \<noteq> 0 then (tot1, w1)
         else ring_bytes_loop ring k (Suc i) tot1 w1)"

definition axidma_ring_bytes :: "axidma_ring \<Rightarrow> world \<Rightarrow> u32 \<times> world" where
  "axidma_ring_bytes ring w = ring_bytes_loop ring (nat (r_count ring)) 0 0 w"

end
