(* ===== verification/OJLS_Ring.thy ===== *)
theory OJLS_Ring
  imports OJLS_Axidma
begin

text \<open>
  What a descriptor ring means to the DMA engine. The engine follows the chain that the driver
  stored, from CURDESC to TAILDESC (\<open>dma_walk\<close>, after the AXI DMA product guide); the lemmas
  show that on a ring of \<open>axidma_ring_build\<close> it visits exactly the consecutive chunks of the
  buffer, each with its length and its frame marks.
\<close>

unbundle bit_operations_syntax

section \<open>The engine's view\<close>

text \<open>The block of words the program last stored at an address.\<close>

fun stored :: "event list \<Rightarrow> addr \<Rightarrow> u32 list option" where
  "stored [] a = None"
| "stored (EvStore b ws # h) a = (if a = b then Some ws else stored h a)"
| "stored (_ # h) a = stored h a"

text \<open>A segment: its bus address, its length, and whether it starts and ends a frame.\<close>

type_synonym dma_seg = "u64 \<times> nat \<times> bool \<times> bool"

definition join64 :: "u32 \<Rightarrow> u32 \<Rightarrow> u64" where
  "join64 hi lo = push_bit 32 (ucast hi) OR ucast lo"

definition seg_of_words :: "u32 list \<Rightarrow> dma_seg" where
  "seg_of_words ws =
     (join64 (ws ! 3) (ws ! 2), unat (ws ! 6 AND AXIDMA_DESC_LEN_MASK),
      ws ! 6 AND AXIDMA_DESC_SOF \<noteq> 0, ws ! 6 AND AXIDMA_DESC_EOF \<noteq> 0)"

definition next_of_words :: "u32 list \<Rightarrow> u64" where
  "next_of_words ws = join64 (ws ! 1) (ws ! 0)"

text \<open>
  At most \<open>n\<close> descriptors from the bus address \<open>cur\<close> on, until the one at \<open>tail\<close> is done;
  \<open>None\<close> when the engine runs into memory that holds no descriptor, or does not stop.
\<close>

fun dma_walk :: "event list \<Rightarrow> axidma_ring \<Rightarrow> nat \<Rightarrow> u64 \<Rightarrow> u64 \<Rightarrow> dma_seg list option" where
  "dma_walk h ring 0 cur tail = None"
| "dma_walk h ring (Suc n) cur tail =
     (case stored h (r_desc ring + ucast (cur - r_phys ring)) of
        None \<Rightarrow> None
      | Some ws \<Rightarrow>
          if cur = tail then Some [seg_of_words ws]
          else map_option (Cons (seg_of_words ws)) (dma_walk h ring n (next_of_words ws) tail))"

definition ring_tail :: "axidma_ring \<Rightarrow> u64" where
  "ring_tail ring = r_phys ring + of_int (r_count ring - 1) * of_nat desc_size"

text \<open>The bytes of a segment, by bus address.\<close>

definition seg_addrs :: "dma_seg \<Rightarrow> u64 list" where
  "seg_addrs s = (case s of (a, n, _, _) \<Rightarrow> map (\<lambda>k. a + of_nat k) [0..<n])"

section \<open>The chunks of a buffer\<close>

definition n_chunks :: "nat \<Rightarrow> nat \<Rightarrow> nat" where
  "n_chunks len c = (len + c - 1) div c"

definition ring_segs :: "u64 \<Rightarrow> nat \<Rightarrow> nat \<Rightarrow> bool \<Rightarrow> dma_seg list" where
  "ring_segs buf len c frame =
     map (\<lambda>i. (buf + of_nat (i * c), min c (len - i * c),
               frame \<and> i = 0, frame \<and> Suc i = n_chunks len c)) [0..<n_chunks len c]"

lemma n_chunks_bounds:
  assumes "0 < c" and "0 < len"
  shows "0 < n_chunks len c" "i < n_chunks len c \<Longrightarrow> i * c < len" "len \<le> n_chunks len c * c"
    "n_chunks len c \<le> len"
proof -
  show "0 < n_chunks len c"
    using assms by (simp add: n_chunks_def div_greater_zero_iff)
  show "i * c < len" if "i < n_chunks len c"
  proof -
    from that have "Suc i \<le> (len + c - 1) div c" by (simp add: n_chunks_def)
    then have "Suc i * c \<le> len + c - 1"
      using assms(1) by (simp only: less_eq_div_iff_mult_less_eq)
    then show ?thesis using assms by simp
  qed
  show "len \<le> n_chunks len c * c"
    using dividend_less_div_times [OF assms(1), of "len + c - 1"] assms by (simp add: n_chunks_def)
  show "n_chunks len c \<le> len"
  proof -
    have "len + c - 1 < (len + 1) * c"
      using assms by (cases c) (auto simp: algebra_simps)
    then have "(len + c - 1) div c < len + 1" using assms(1) by (simp add: div_less_iff_less_mult)
    then show ?thesis by (simp add: n_chunks_def)
  qed
qed

lemma concat_chunks:
  assumes "\<And>i. i < m \<Longrightarrow> i * c < len"
  shows "concat (map (\<lambda>i. map f [i * c..<i * c + min c (len - i * c)]) [0..<m]) = map f [0..<min (m * c) len]"
  using assms
proof (induction m)
  case (Suc m)
  from Suc.prems [of m] have lt: "m * c < len" by simp
  with Suc.IH Suc.prems
  have IH: "concat (map (\<lambda>i. map f [i * c..<i * c + min c (len - i * c)]) [0..<m]) = map f [0..<m * c]"
    by (simp add: less_Suc_eq min_absorb1)
  have "[0..<m * c] @ [m * c..<m * c + min c (len - m * c)] = [0..<m * c + min c (len - m * c)]"
    using upt_add_eq_append [of 0 "m * c" "min c (len - m * c)"] by simp
  moreover have "m * c + min c (len - m * c) = min (Suc m * c) len" using lt by auto
  ultimately have "[0..<m * c] @ [m * c..<m * c + min c (len - m * c)] = [0..<min (Suc m * c) len]" by simp
  from arg_cong [OF this, of "map f"] IH show ?case by simp
qed simp

lemma seg_addrs_shift:
  "seg_addrs (buf + of_nat k, n, s, e) = map (\<lambda>j. buf + of_nat j) [k..<k + n]"
  by (rule nth_equalityI) (simp_all add: seg_addrs_def)

text \<open>The segments cover the buffer: every byte once, in order.\<close>

lemma ring_segs_cover:
  assumes "0 < c" and "0 < len"
  shows "concat (map seg_addrs (ring_segs buf len c frame)) = map (\<lambda>j. buf + of_nat j) [0..<len]"
proof -
  have "map seg_addrs (ring_segs buf len c frame) =
      map (\<lambda>i. map (\<lambda>j. buf + of_nat j) [i * c..<i * c + min c (len - i * c)]) [0..<n_chunks len c]"
    unfolding ring_segs_def map_map comp_def seg_addrs_shift ..
  with concat_chunks [of "n_chunks len c" c len] n_chunks_bounds [OF assms] show ?thesis
    by (simp add: min_absorb2)
qed

section \<open>What the descriptor loop stores\<close>

lemma and_mask_small: "unat (l :: u32) < 2 ^ n \<Longrightarrow> l AND mask n = l"
proof -
  assume "unat l < 2 ^ n"
  then have "unat (take_bit n l) = unat l" by (simp add: unsigned_take_bit_eq take_bit_nat_eq_self)
  then show ?thesis by (simp add: take_bit_eq_mask [symmetric] word_unat_eq_iff)
qed

definition built_desc :: "axidma_ring \<Rightarrow> u32 \<Rightarrow> bool \<Rightarrow> u64 \<Rightarrow> u64 \<Rightarrow> nat \<Rightarrow> axidma_desc" where
  "built_desc ring chunk frame len buf i =
     ring_desc ring chunk frame i (len - of_nat (i * unat chunk)) (buf + of_nat (i * unat chunk))"

lemma ring_len_unat: "unat (ring_len chunk r) = min (unat chunk) (unat r)"
proof (cases "r > ucast chunk")
  case True
  then show ?thesis by (simp add: ring_len_def word_less_nat_alt unat_widen)
next
  case False
  then have le: "unat r \<le> unat chunk" by (simp add: word_less_nat_alt unat_widen)
  then have "unat r < 2 ^ 32" using unat_u32_less [of chunk] by simp
  with le False show ?thesis
    by (simp add: ring_len_def unsigned_ucast_eq min_def take_bit_nat_eq_self)
qed

lemma ring_fill_stores:
  assumes "k + i = n" and "\<And>j. j < n \<Longrightarrow> j * unat chunk < unat len"
    and "k \<noteq> 0 \<Longrightarrow> remaining = len - of_nat (i * unat chunk) \<and> adr = buf + of_nat (i * unat chunk)"
  shows "ring_fill ring chunk frame k i remaining adr w =
     w\<lparr>hist := rev (map (\<lambda>j. EvStore (desc_addr ring j) (desc_words (built_desc ring chunk frame len buf j))) [i..<n]) @ hist w\<rparr>"
  using assms
proof (induction k arbitrary: i remaining adr w)
  case (Suc k)
  let ?l = "ucast (ring_len chunk remaining) :: u64"
  from Suc.prems have rem: "remaining = len - of_nat (i * unat chunk)" "adr = buf + of_nat (i * unat chunk)"
    and i: "i * unat chunk < unat len" by simp_all
  have small: "i * unat chunk < 2 ^ 64" using i unat_u64_less [of len] by simp
  have ur: "unat remaining = unat len - i * unat chunk"
  proof -
    from small have u: "unat (of_nat (i * unat chunk) :: u64) = i * unat chunk"
      by (rule unat_of_nat_small)
    with i have "of_nat (i * unat chunk) \<le> len" by (simp add: word_le_nat_alt)
    with u rem show ?thesis by (simp add: unat_sub)
  qed
  have next_round: "remaining - ?l = len - of_nat (Suc i * unat chunk)
      \<and> adr + ?l = buf + of_nat (Suc i * unat chunk)" if "k \<noteq> 0"
  proof -
    from that Suc.prems(1) have "Suc i < n" by simp
    with Suc.prems(2) have "Suc i * unat chunk < unat len" by blast
    with ur have "min (unat chunk) (unat remaining) = unat chunk" by simp
    then have "unat (ring_len chunk remaining) = unat chunk" by (simp add: ring_len_unat)
    then have "?l = of_nat (unat chunk)" by (metis of_nat_unat)
    with rem show ?thesis by simp
  qed
  have upt: "[i..<n] = i # [Suc i..<n]" using Suc.prems(1) by (simp add: upt_conv_Cons)
  show ?case
    using Suc.IH [of "Suc i" "remaining - ?l" "adr + ?l"] Suc.prems(1,2) next_round rem
    by (simp add: Let_def upt mem_store_def log_def built_desc_def)
qed simp

text \<open>When the driver builds a ring, and what is in it then.\<close>

lemma nchunks_word:
  assumes "0 < chunk" and "len \<noteq> 0" and "unat len < 2 ^ 58"
  shows "unat ((len + ucast (chunk :: u32) - 1) div ucast chunk :: u64) = n_chunks (unat len) (unat chunk)"
proof -
  have c: "unat chunk < 2 ^ 32" using unat_u32_less [of chunk] by simp
  then have no: "unat len + unat (ucast chunk :: u64) < 2 ^ 64" using assms(3) by (simp add: unat_widen)
  have "1 \<le> len + ucast chunk"
    using no assms(2) by (simp add: word_le_nat_alt unat_word_ariths unat_eq_0 unat_widen Suc_le_eq unat_gt_0)
  then show ?thesis
    using no by (simp add: n_chunks_def unat_div unat_sub unat_word_ariths unat_widen)
qed

text \<open>
  The call succeeds just when there is something to transfer, the descriptors are aligned and
  they fit; otherwise nothing is stored.
\<close>

definition ring_fits :: "udmabuf \<Rightarrow> size_t \<Rightarrow> size_t \<Rightarrow> nat \<Rightarrow> u32 \<Rightarrow> bool" where
  "ring_fits db off cap len chunk \<longleftrightarrow>
     0 < len \<and> off AND 0x3F = 0 \<and> (b_phys db + ucast off) AND 0x3F = 0 \<and>
     n_chunks len (unat chunk) * desc_size \<le> unat cap"

definition built_ring :: "udmabuf \<Rightarrow> size_t \<Rightarrow> nat \<Rightarrow> u32 \<Rightarrow> axidma_ring" where
  "built_ring db off len chunk =
     \<lparr>r_db = db, r_off = off, r_desc = b_mem db + off, r_phys = b_phys db + ucast off,
      r_count = int (n_chunks len (unat chunk))\<rparr>"

lemma ring_build_exact:
  assumes "0 < chunk" and "unat len < 2 ^ 58"
  shows "axidma_ring_build db off cap buf len chunk frame w =
    (if ring_fits db off cap (unat len) chunk
     then (let ring = built_ring db off (unat len) chunk
           in (Some ring, w\<lparr>hist := rev (map (\<lambda>j. EvStore (desc_addr ring j)
                 (desc_words (built_desc ring chunk frame len buf j))) [0..<n_chunks (unat len) (unat chunk)]) @ hist w\<rparr>))
     else (None, w))"
proof (cases "len = 0")
  case True
  then show ?thesis by (simp add: axidma_ring_build_def ring_fits_def)
next
  case False
  define q :: u64 where "q = (len + ucast chunk - 1) div ucast chunk"
  let ?n = "n_chunks (unat len) (unat chunk)"
  from False have l: "0 < unat len" by (simp add: unat_gt_0)
  from assms(1) have c: "0 < unat chunk" by (simp add: word_less_nat_alt)
  have q: "unat q = ?n" unfolding q_def using nchunks_word [OF assms(1) False assms(2)] .
  have n58: "?n < 2 ^ 58" using n_chunks_bounds(4) [OF c l] assms(2) by simp
  then have "unat (q * of_nat desc_size) = ?n * desc_size"
    by (simp add: unat_word_ariths q consts_defs)
  then have fits: "q * of_nat desc_size > ucast cap \<longleftrightarrow> ?n * desc_size > unat cap"
    by (simp add: word_less_nat_alt unat_widen)
  have cnt: "sint (ucast q :: u32) = int ?n" if "?n * desc_size \<le> unat cap"
  proof -
    from that unat_u32_less [of cap] have n31: "?n < 2 ^ 31" by (simp add: consts_defs)
    have "uint (ucast q :: u32) = int ?n"
      using q n31 by (simp add: uint_nat unsigned_ucast_eq take_bit_nat_eq_self)
    with n31 show ?thesis by (simp add: sint_uint signed_take_bit_int_eq_self)
  qed
  show ?thesis
    unfolding axidma_ring_build_def
    using False l fits cnt n_chunks_bounds(2) [OF c l]
    by (simp add: q_def [symmetric] Let_def ring_fits_def built_ring_def not_less
        ring_fill_stores [where i = 0 and n = ?n and len = len and buf = buf])
qed

section \<open>Reading the ring back\<close>

lemma join64_split: "join64 (ucast (drop_bit 32 x)) (ucast (x :: u64)) = x"
proof (rule bit_word_eqI)
  fix n
  assume "n < LENGTH(64)"
  then show "bit (join64 (ucast (drop_bit 32 x)) (ucast x)) n = bit x n"
    by (cases "n < 32") (auto simp: join64_def bit_simps)
qed

text \<open>The control word of a descriptor with its length and its two marks.\<close>

definition control_word :: "u32 \<Rightarrow> bool \<Rightarrow> bool \<Rightarrow> u32" where
  "control_word l sof eof =
     (l AND AXIDMA_DESC_LEN_MASK) OR (if sof then AXIDMA_DESC_SOF else 0) OR (if eof then AXIDMA_DESC_EOF else 0)"

lemma control_word_fields:
  "control_word l sof eof AND AXIDMA_DESC_LEN_MASK = l AND AXIDMA_DESC_LEN_MASK"
  "control_word l sof eof AND AXIDMA_DESC_SOF \<noteq> 0 \<longleftrightarrow> sof"
  "control_word l sof eof AND AXIDMA_DESC_EOF \<noteq> 0 \<longleftrightarrow> eof"
proof -
  have m: "AXIDMA_DESC_LEN_MASK AND AXIDMA_DESC_SOF = 0" "AXIDMA_DESC_LEN_MASK AND AXIDMA_DESC_EOF = 0"
    "AXIDMA_DESC_SOF AND AXIDMA_DESC_LEN_MASK = 0" "AXIDMA_DESC_EOF AND AXIDMA_DESC_LEN_MASK = 0"
    "AXIDMA_DESC_SOF AND AXIDMA_DESC_EOF = 0" "AXIDMA_DESC_EOF AND AXIDMA_DESC_SOF = 0"
    "AXIDMA_DESC_SOF \<noteq> 0" "AXIDMA_DESC_EOF \<noteq> 0"
    by (simp_all add: consts_defs push_bit_eq_mult)
  show "control_word l sof eof AND AXIDMA_DESC_LEN_MASK = l AND AXIDMA_DESC_LEN_MASK"
    "control_word l sof eof AND AXIDMA_DESC_SOF \<noteq> 0 \<longleftrightarrow> sof"
    "control_word l sof eof AND AXIDMA_DESC_EOF \<noteq> 0 \<longleftrightarrow> eof"
    by (simp_all add: control_word_def bit.conj_disj_distrib2 and.assoc m)
qed

lemma stored_ring:
  assumes "i < n" and "n * desc_size \<le> 2 ^ 32"
  shows "stored (rev (map (\<lambda>j. EvStore (desc_addr ring j) (W j)) [0..<n]) @ h) (desc_addr ring i) = Some (W i)"
  using assms
proof (induction n)
  case (Suc n)
  have "desc_addr ring i = desc_addr ring n \<Longrightarrow> i = n"
  proof -
    assume "desc_addr ring i = desc_addr ring n"
    then have "(of_nat (i * desc_size) :: u32) = of_nat (n * desc_size)"
      by (simp add: desc_addr_def)
    then have "unat (of_nat (i * desc_size) :: u32) = unat (of_nat (n * desc_size) :: u32)" by (rule arg_cong)
    moreover have "i * desc_size < 2 ^ 32" "n * desc_size < 2 ^ 32"
      using Suc.prems by (simp_all add: consts_defs)
    ultimately have "i * desc_size = n * desc_size" by (simp only: unat_of_nat_small)
    then show "i = n" by (simp add: consts_defs)
  qed
  with Suc show ?case by (cases "i = n") auto
qed simp

text \<open>One descriptor, as the engine reads it.\<close>

lemma built_desc_words:
  assumes "0 < chunk" and "chunk \<le> AXIDMA_DESC_LEN_MASK" and "0 < unat len" and n: "n = n_chunks (unat len) (unat chunk)"
    and ring: "ring = built_ring db off (unat len) chunk" and i: "i < n"
    and W: "W = desc_words (built_desc ring chunk frame len buf i)"
  shows "seg_of_words W = ring_segs buf (unat len) (unat chunk) frame ! i"
    and "Suc i < n \<Longrightarrow> next_of_words W = r_phys ring + of_nat (Suc i * desc_size)"
proof -
  let ?r = "len - of_nat (i * unat chunk)" and ?l = "ring_len chunk (len - of_nat (i * unat chunk))"
  from assms(1) have c: "0 < unat chunk" by (simp add: word_less_nat_alt)
  have lt: "i * unat chunk < unat len" using n_chunks_bounds(2) [OF c assms(3)] i n by simp
  have u: "unat (of_nat (i * unat chunk) :: u64) = i * unat chunk"
    using lt unat_u64_less [of len] by (intro unat_of_nat_small) simp
  with lt have "of_nat (i * unat chunk) \<le> len" by (simp add: word_le_nat_alt)
  with u have ur: "unat ?r = unat len - i * unat chunk" by (simp add: unat_sub)
  have "?l \<le> chunk" by (simp add: word_le_nat_alt ring_len_unat)
  with assms(2) have "unat ?l < 2 ^ 26" by (simp add: consts_defs word_le_nat_alt)
  then have "?l AND AXIDMA_DESC_LEN_MASK = ?l"
    using and_mask_small [of ?l 26] by (simp add: consts_defs mask_eq_exp_minus_1)
  then have ml: "unat (?l AND AXIDMA_DESC_LEN_MASK) = min (unat chunk) (unat len - i * unat chunk)"
    by (simp only: ring_len_unat ur)
  have cnt: "int i = r_count ring - 1 \<longleftrightarrow> Suc i = n"
    using ring n by (auto simp: built_ring_def)
  have "W ! 6 = control_word ?l (frame \<and> i = 0) (frame \<and> Suc i = n)"
    using cnt by (simp add: W built_desc_def ring_desc_def Let_def desc_words_def desc_zero_def control_word_def or.assoc)
  moreover have "join64 (W ! 3) (W ! 2) = buf + of_nat (i * unat chunk)"
    by (simp add: W built_desc_def ring_desc_def Let_def desc_words_def desc_zero_def join64_split)
  moreover have "ring_segs buf (unat len) (unat chunk) frame ! i = (buf + of_nat (i * unat chunk),
      min (unat chunk) (unat len - i * unat chunk), frame \<and> i = 0, frame \<and> Suc i = n)"
    using i unfolding n by (simp add: ring_segs_def)
  ultimately show "seg_of_words W = ring_segs buf (unat len) (unat chunk) frame ! i"
    using ml by (simp only: seg_of_words_def control_word_fields)
  show "next_of_words W = r_phys ring + of_nat (Suc i * desc_size)" if "Suc i < n"
    using that cnt
    by (simp add: next_of_words_def W built_desc_def ring_desc_def Let_def desc_words_def desc_zero_def
        join64_split distrib_right)
qed

lemma stored_skip:
  "(\<And>j. j < n \<Longrightarrow> A j \<noteq> a) \<Longrightarrow> stored (rev (map (\<lambda>j. EvStore (A j) (W j)) [0..<n]) @ h) a = stored h a"
  by (induction n) auto

text \<open>The descriptors of a ring are in memory as they were built.\<close>

definition holds_ring :: "event list \<Rightarrow> axidma_ring \<Rightarrow> u32 \<Rightarrow> bool \<Rightarrow> u64 \<Rightarrow> u64 \<Rightarrow> bool" where
  "holds_ring h ring chunk frame len buf \<longleftrightarrow>
     (\<forall>i < n_chunks (unat len) (unat chunk).
        stored h (desc_addr ring i) = Some (desc_words (built_desc ring chunk frame len buf i)))"

text \<open>
  Following the chain of a built ring from its first descriptor visits the chunks of the
  buffer and stops at the tail that \<open>axidma_sg_start\<close> writes.
\<close>

lemma ring_walk_from:
  assumes chunk: "0 < chunk" "chunk \<le> AXIDMA_DESC_LEN_MASK" and len: "0 < unat len"
    and n: "n = n_chunks (unat len) (unat chunk)" "n * desc_size \<le> 2 ^ 32"
    and ring: "ring = built_ring db off (unat len) chunk"
    and h: "holds_ring h ring chunk frame len buf"
    and "k + i = n" and "0 < k"
  shows "dma_walk h ring k (r_phys ring + of_nat (i * desc_size)) (ring_tail ring) =
      Some (drop i (ring_segs buf (unat len) (unat chunk) frame))"
  using \<open>k + i = n\<close> \<open>0 < k\<close>
proof (induction k arbitrary: i)
  case (Suc k)
  then have i: "i < n" by simp
  let ?W = "desc_words (built_desc ring chunk frame len buf i)"
  have "stored h (desc_addr ring i) = Some ?W"
    using h i n(1) by (simp add: holds_ring_def)
  moreover have "r_desc ring + ucast ((r_phys ring + of_nat (i * desc_size)) - r_phys ring) = desc_addr ring i"
  proof -
    have "i * desc_size < 2 ^ 32" using i n(2) by (simp add: consts_defs)
    then have "unat (of_nat (i * desc_size) :: u64) = i * desc_size" "unat (of_nat (i * desc_size) :: u32) = i * desc_size"
      by (intro unat_of_nat_small; simp)+
    with \<open>i * desc_size < 2 ^ 32\<close> have "ucast (of_nat (i * desc_size) :: u64) = (of_nat (i * desc_size) :: u32)"
      by (simp only: word_unat_eq_iff unsigned_ucast_eq take_bit_nat_eq_self) (simp add: take_bit_nat_eq_self)
    then show ?thesis by (simp only: desc_addr_def add_diff_cancel_left')
  qed
  ultimately have st: "stored h (r_desc ring + ucast ((r_phys ring + of_nat (i * desc_size)) - r_phys ring)) = Some ?W"
    by simp
  have tl: "r_phys ring + of_nat (i * desc_size) = ring_tail ring \<longleftrightarrow> Suc i = n"
  proof -
    have "ring_tail ring = r_phys ring + of_nat ((n - 1) * desc_size)"
      using i n(1) ring by (simp add: ring_tail_def built_ring_def of_nat_diff)
    moreover have "(of_nat (i * desc_size) :: u64) = of_nat ((n - 1) * desc_size) \<longleftrightarrow> i = n - 1"
    proof -
      have "i * desc_size < 2 ^ 64" "(n - 1) * desc_size < 2 ^ 64"
        using i n(2) by (simp_all add: consts_defs)
      then have "(of_nat (i * desc_size) :: u64) = of_nat ((n - 1) * desc_size) \<longleftrightarrow> i * desc_size = (n - 1) * desc_size"
        by (metis unat_of_nat_small(2))
      then show ?thesis by (simp add: consts_defs)
    qed
    ultimately show ?thesis using i by auto
  qed
  note words = built_desc_words [OF chunk len n(1) ring i refl, of frame buf]
  have dr: "drop i (ring_segs buf (unat len) (unat chunk) frame) =
      ring_segs buf (unat len) (unat chunk) frame ! i # drop (Suc i) (ring_segs buf (unat len) (unat chunk) frame)"
    using i n(1) by (intro Cons_nth_drop_Suc [symmetric]) (simp add: ring_segs_def)
  have eq: "dma_walk h ring (Suc k) (r_phys ring + of_nat (i * desc_size)) (ring_tail ring) =
      (if Suc i = n then Some [seg_of_words ?W]
       else map_option (Cons (seg_of_words ?W)) (dma_walk h ring k (next_of_words ?W) (ring_tail ring)))"
    by (simp only: dma_walk.simps st option.case tl)
  show ?case
  proof (cases "Suc i = n")
    case True
    then have "drop (Suc i) (ring_segs buf (unat len) (unat chunk) frame) = []"
      using n(1) by (simp add: ring_segs_def)
    with True words(1) dr show ?thesis unfolding eq by simp
  next
    case False
    with i Suc.prems have "Suc i < n" "k + Suc i = n" "0 < k" by simp_all
    with Suc.IH [of "Suc i"] words False dr show ?thesis unfolding eq by simp
  qed
qed simp

lemma ring_build_some:
  assumes build: "axidma_ring_build db off cap buf len chunk frame w = (Some ring, w')"
    and chunk: "0 < chunk" and len: "unat len < 2 ^ 58"
  shows "ring_fits db off cap (unat len) chunk" "ring = built_ring db off (unat len) chunk"
    "hist w' = rev (map (\<lambda>j. EvStore (desc_addr ring j)
         (desc_words (built_desc ring chunk frame len buf j))) [0..<n_chunks (unat len) (unat chunk)]) @ hist w"
    "world_env w' = world_env w" "0 < unat len" "0 < n_chunks (unat len) (unat chunk)"
    "n_chunks (unat len) (unat chunk) * desc_size \<le> unat cap"
    "n_chunks (unat len) (unat chunk) * desc_size \<le> 2 ^ 32" "holds_ring (hist w') ring chunk frame len buf"
proof -
  note ex = ring_build_exact [OF chunk len, of db off cap buf frame w]
  from build ex show fits: "ring_fits db off cap (unat len) chunk" by (auto split: if_splits)
  with build ex show r: "ring = built_ring db off (unat len) chunk"
    and h: "hist w' = rev (map (\<lambda>j. EvStore (desc_addr ring j)
         (desc_words (built_desc ring chunk frame len buf j))) [0..<n_chunks (unat len) (unat chunk)]) @ hist w"
    and "world_env w' = world_env w"
    by (auto simp: Let_def)
  from fits show len0: "0 < unat len" and c: "n_chunks (unat len) (unat chunk) * desc_size \<le> unat cap"
    by (simp_all add: ring_fits_def)
  with unat_u32_less [of cap] show cap: "n_chunks (unat len) (unat chunk) * desc_size \<le> 2 ^ 32" by simp
  show "0 < n_chunks (unat len) (unat chunk)"
    using chunk len0 by (intro n_chunks_bounds(1)) (simp_all add: word_less_nat_alt)
  show "holds_ring (hist w') ring chunk frame len buf"
    unfolding holds_ring_def h by (auto intro!: stored_ring cap)
qed

lemma held_ring_walk:
  assumes "holds_ring h ring chunk frame len buf" and "ring = built_ring db off (unat len) chunk"
    and "0 < chunk" "chunk \<le> AXIDMA_DESC_LEN_MASK" "0 < unat len"
    and "0 < n_chunks (unat len) (unat chunk)" "n_chunks (unat len) (unat chunk) * desc_size \<le> 2 ^ 32"
  shows "dma_walk h ring (nat (r_count ring)) (r_phys ring) (ring_tail ring) =
      Some (ring_segs buf (unat len) (unat chunk) frame)"
  using ring_walk_from [OF assms(3,4,5) refl assms(7,2,1), of "n_chunks (unat len) (unat chunk)" 0] assms(2,6)
  by (simp add: built_ring_def)

lemma ring_walk:
  assumes build: "axidma_ring_build db off cap buf len chunk frame w = (Some ring, w')"
    and chunk: "0 < chunk" "chunk \<le> AXIDMA_DESC_LEN_MASK" and len: "unat len < 2 ^ 58"
  shows "dma_walk (hist w') ring (nat (r_count ring)) (r_phys ring) (ring_tail ring) =
      Some (ring_segs buf (unat len) (unat chunk) frame)"
proof -
  note b = ring_build_some [OF build chunk(1) len]
  show ?thesis by (rule held_ring_walk [OF b(9) b(2) chunk b(5) b(6) b(8)])
qed

end
