(* ===== verification/OJLS_Wait.thy ===== *)
theory OJLS_Wait
  imports OJLS_Ring
begin

text \<open>
  The polling loops of the driver. They all end: the interface \<open>deadline_loop\<close> says what such
  a loop does in a round, and its one theorem, that it comes back once the clock passes the
  deadline, is used for the reset, for both waits and for the configuration of the core. What
  a wait reports is what the descriptors said in its last round, after a cache hand-over.
\<close>

unbundle bit_operations_syntax

section \<open>Loops with a deadline\<close>

text \<open>
  A round that goes on has read the clock and found it not late yet; \<open>ok\<close> is what the body
  needs of the environment to return at all.
\<close>

locale deadline_loop =
  fixes body :: "'s \<Rightarrow> world \<Rightarrow> (('s + 'a) \<times> world) option"
    and late :: "int \<times> int \<Rightarrow> bool"
    and ok :: "env \<Rightarrow> bool"
  assumes body_returns: "ok (world_env w) \<Longrightarrow> returns (body s w)"
    and body_emits: "body s w = Some (r, w1) \<Longrightarrow> emits (\<lambda>_. True) w w1"
    and body_round: "body s w = Some (Inl s1, w1) \<Longrightarrow>
      \<exists>h. length (hist w) \<le> length h \<and> length h < length (hist w1) \<and> \<not> late (env_clock (world_env w) h)"
    and late_in_time: "\<exists>s. \<forall>sec nsec. s < sec \<longrightarrow> 0 \<le> nsec \<longrightarrow> late (sec, nsec)"
begin

lemma loop_returns:
  assumes "ok (world_env w)" and "clock_diverges (world_env w)"
  shows "returns (c_loop body s w)"
proof -
  obtain t where t: "\<And>sec nsec. t < sec \<Longrightarrow> 0 \<le> nsec \<Longrightarrow> late (sec, nsec)"
    using late_in_time by blast
  obtain n where n: "\<And>h. n \<le> length h \<Longrightarrow> t < fst (env_clock (world_env w) h) \<and> 0 \<le> snd (env_clock (world_env w) h)"
    using assms(2) by (auto simp: clock_diverges_def)
  have late: "late (env_clock (world_env w) h)" if "n \<le> length h" for h
    using n [OF that] t by (metis prod.collapse)
  show ?thesis
  proof (rule c_loop_total [where I = "\<lambda>_ u. world_env u = world_env w" and m = "\<lambda>_ u. n - length (hist u)"])
    fix s u s1 u1
    assume env: "world_env u = world_env w" and b: "body s u = Some (Inl s1, u1)"
    from body_round [OF b] env obtain h where
      "length (hist u) \<le> length h" "length h < length (hist u1)" "\<not> late (env_clock (world_env w) h)" by auto
    with late [of h] have "n - length (hist u1) < n - length (hist u)" by fastforce
    with emits_env [OF body_emits [OF b]] env
    show "world_env u1 = world_env w \<and> n - length (hist u1) < n - length (hist u)" by simp
  qed (use assms(1) body_returns in simp_all)
qed

lemma loop_emits: "c_loop body s w = Some (a, w') \<Longrightarrow> emits (\<lambda>_. True) w w'"
  by (rule emits_loop) (auto intro: body_emits)

end

section \<open>The clock\<close>

lemma now_ms_log: "now_ms w = (t, w1) \<Longrightarrow> w1 = log (EvClock (fst (env_clock (world_env w) (hist w))) (snd (env_clock (world_env w) (hist w)))) w
    \<and> t = fst (env_clock (world_env w) (hist w)) * 1000 + snd (env_clock (world_env w) (hist w)) div 1000000"
  by (auto simp: now_ms_def sys_clock_def Let_def split: prod.splits)

definition late_ms :: "int \<Rightarrow> int \<times> int \<Rightarrow> bool" where
  "late_ms deadline t \<longleftrightarrow> fst t * 1000 + snd t div 1000000 > deadline"

lemma late_ms_in_time: "\<exists>s. \<forall>sec nsec. s < sec \<longrightarrow> 0 \<le> nsec \<longrightarrow> late_ms deadline (sec, nsec)"
proof (intro exI allI impI)
  fix sec nsec :: int
  assume "\<bar>deadline\<bar> < sec" and "0 \<le> nsec"
  then have "0 \<le> nsec div 1000000" "\<bar>deadline\<bar> < sec * 1000" by (simp_all add: pos_imp_zdiv_nonneg_iff)
  then show "late_ms deadline (sec, nsec)" by (simp add: late_ms_def)
qed

section \<open>The reset\<close>

lemma emits_true [intro]: "world_env w' = world_env w \<Longrightarrow> hist w' = es @ hist w \<Longrightarrow> emits (\<lambda>_. True) w w'"
  by (simp add: emits_def list_all_iff)

interpretation reset: deadline_loop "reset_body d deadline" "late_ms deadline" "\<lambda>_. True" for d deadline
proof unfold_locales
  fix s w r w1 s1
  show "returns (reset_body d deadline s w)"
    by (auto simp: reset_body_def split: prod.splits)
  have busy: "reset_busy d w = (b, u) \<Longrightarrow> emits (\<lambda>_. True) w u" for b u
    by (auto simp: reset_busy_def log_simps Let_def split: if_splits intro!: emits_log)
  show "reset_body d deadline s w = Some (r, w1) \<Longrightarrow> emits (\<lambda>_. True) w w1"
    by (auto simp: reset_body_def msleep_short_def sys_nanosleep_def split: prod.splits if_splits
        dest!: busy now_ms_log intro!: emits_log)
  show "\<exists>h. length (hist w) \<le> length h \<and> length h < length (hist w1) \<and> \<not> late_ms deadline (env_clock (world_env w) h)"
    if "reset_body d deadline s w = Some (Inl s1, w1)"
  proof -
    obtain b u where b: "reset_busy d w = (b, u)" by force
    have "emits (\<lambda>_. True) w u" using b by (rule busy)
    then have "length (hist w) \<le> length (hist u)" "world_env u = world_env w"
      by (auto dest: emits_length emits_env)
    with that b show ?thesis
      by (intro exI [of _ "hist u"])
        (auto simp: reset_body_def msleep_short_def sys_nanosleep_def late_ms_def split: prod.splits if_splits
          dest!: now_ms_log)
  qed
qed (rule late_ms_in_time)

section \<open>What the hardware operations do to the world\<close>

text \<open>
  The events of the hardware operations: clock and sleep, registers, descriptor memory, sysfs
  attributes, and the interrupt of the DMA on its descriptor \<open>k\<close>. Each rule below continues a
  footprint over one more operation, so that chains of operations are followed by resolution.
\<close>

fun hw_event :: "int \<Rightarrow> event \<Rightarrow> bool" where
  "hw_event k (EvClock s n) = True"
| "hw_event k (EvSleep n) = True"
| "hw_event k (EvRegRead a v) = True"
| "hw_event k (EvRegWrite a v) = True"
| "hw_event k (EvLoad a v) = True"
| "hw_event k (EvStore a vs) = True"
| "hw_event k e = (on_fd k e \<or> is_attr e)"

definition quiet :: "int \<Rightarrow> event \<Rightarrow> bool" where
  "quiet fd e \<longleftrightarrow> \<not> is_read fd e \<and> \<not> is_write fd e"

lemma hw_event_quiet: "hw_event k e \<Longrightarrow> fd \<noteq> k \<Longrightarrow> quiet fd e"
  by (cases e) (auto simp: quiet_def)

lemma on_fd_hw: "on_fd k e \<Longrightarrow> hw_event k e"
  by (cases e) auto

lemma is_attr_hw: "is_attr e \<Longrightarrow> hw_event k e"
  by (cases e) auto

lemma hw_emits_wire:
  assumes "emits (hw_event k) w w'" and "fd \<noteq> k"
  shows "sent fd w' = sent fd w" "rcvd fd w' = rcvd fd w"
  using assms
  by (auto intro!: sent_emits rcvd_emits elim!: emits_mono dest: hw_event_quiet simp: quiet_def)

lemma uio_rd_after [emits_intros]:
  "uio_rd u off w1 = (v, w2) \<Longrightarrow> emits (hw_event k) w w1 \<Longrightarrow> emits (hw_event k) w w2"
  by (auto simp: log_simps Let_def intro: emits_log)

lemma uio_wr_after [emits_steps]: "emits (hw_event k) w w1 \<Longrightarrow> emits (hw_event k) w (uio_wr u off v w1)"
  by (auto simp: log_simps intro: emits_log)

lemma mem_load_after [emits_intros]:
  "mem_load a w1 = (v, w2) \<Longrightarrow> emits (hw_event k) w w1 \<Longrightarrow> emits (hw_event k) w w2"
  by (auto simp: mem_load_def Let_def intro: emits_log)

lemma mem_store_after [emits_steps]: "emits (hw_event k) w w1 \<Longrightarrow> emits (hw_event k) w (mem_store a vs w1)"
  by (auto simp: mem_store_def intro: emits_log)

lemma now_ms_after [emits_intros]:
  "now_ms w1 = (t, w2) \<Longrightarrow> emits (hw_event k) w w1 \<Longrightarrow> emits (hw_event k) w w2"
  by (auto dest!: now_ms_log intro: emits_log)

lemma msleep_after [emits_steps]: "emits (hw_event k) w w1 \<Longrightarrow> emits (hw_event k) w (msleep_short w1)"
  by (auto simp: msleep_short_def sys_nanosleep_def intro: emits_log)

lemma to_device_after [emits_intros]:
  "udmabuf_sync_for_device b off n w1 = (r, w2) \<Longrightarrow> emits (hw_event k) w w1 \<Longrightarrow> emits (hw_event k) w w2"
  by (erule emits_trans) (rule emits_mono [OF to_device.sync_emits is_attr_hw])

lemma to_cpu_after [emits_intros]:
  "udmabuf_sync_for_cpu b off n w1 = (r, w2) \<Longrightarrow> emits (hw_event k) w w1 \<Longrightarrow> emits (hw_event k) w w2"
  by (erule emits_trans) (rule emits_mono [OF to_cpu.sync_emits is_attr_hw])

lemma reset_body_after:
  "reset_body d deadline s w1 = Some (r, w2) \<Longrightarrow> emits (hw_event k) w w1 \<Longrightarrow> emits (hw_event k) w w2"
  by (auto simp: reset_body_def reset_busy_def Let_def split: prod.splits if_splits intro: emits_intros intro!: emits_steps)

lemma axidma_reset_after [emits_intros]:
  assumes "axidma_reset d w1 = Some (r, w2)" and "emits (hw_event k) w w1"
  shows "emits (hw_event k) w w2"
proof -
  obtain t u where t: "now_ms w1 = (t, u)" by force
  let ?v = "uio_wr (dma_uio d) (AXIDMA_CR AXIDMA_S2MM) AXIDMA_CR_RESET
      (uio_wr (dma_uio d) (AXIDMA_CR AXIDMA_MM2S) AXIDMA_CR_RESET u)"
  from assms(1) t have "c_loop (reset_body d (t + 100)) () ?v = Some (r, w2)"
    by (simp add: axidma_reset_def)
  then have "emits (hw_event k) ?v w2"
    by (rule emits_loop) (erule reset_body_after, rule emits_refl)
  moreover have "emits (hw_event k) w ?v" using assms(2) t by (auto intro: emits_intros intro!: emits_steps)
  ultimately show ?thesis by (rule emits_trans [rotated])
qed

lemma ring_fill_after: "emits (hw_event k) w w1 \<Longrightarrow> emits (hw_event k) w (ring_fill ring c fr n i rem adr w1)"
  by (induction n arbitrary: i rem adr w1) (simp_all add: Let_def emits_steps)

lemma ring_build_after [emits_intros]:
  "axidma_ring_build db off cap buf len c fr w1 = (r, w2) \<Longrightarrow> emits (hw_event k) w w1 \<Longrightarrow> emits (hw_event k) w w2"
  by (auto simp: axidma_ring_build_def Let_def split: if_splits intro: ring_fill_after)

lemma sg_start_after [emits_intros]:
  "axidma_sg_start d chan ring w1 = (r, w2) \<Longrightarrow> emits (hw_event k) w w1 \<Longrightarrow> emits (hw_event k) w w2"
  by (auto simp: axidma_sg_start_def Let_def split: if_splits intro: emits_intros intro!: emits_steps)

lemma wait_scan_after [emits_intros]:
  "wait_scan ring n i w1 = (r, w2) \<Longrightarrow> emits (hw_event k) w w1 \<Longrightarrow> emits (hw_event k) w w2"
  by (induction n arbitrary: i w1) (auto split: prod.splits if_splits intro: emits_intros intro!: emits_steps)

lemma packets_scan_after [emits_intros]:
  "packets_scan ring n i w1 = (r, w2) \<Longrightarrow> emits (hw_event k) w w1 \<Longrightarrow> emits (hw_event k) w w2"
  by (induction n arbitrary: i w1) (auto split: prod.splits if_splits intro: emits_intros intro!: emits_steps)

lemma wait_idle_after [emits_intros]:
  assumes "wait_idle d w1 = Some (r, w2)" and "emits (hw_event (u_fd (dma_uio d))) w w1"
  shows "emits (hw_event (u_fd (dma_uio d))) w w2"
  using assms
  by (auto simp: wait_idle_def split: if_splits Option.bind_splits intro!: emits_steps
      intro: emits_trans [OF _ emits_mono [OF uio_irq_wait_emits on_fd_hw]])

lemma ring_bytes_after [emits_intros]:
  "axidma_ring_bytes ring w1 = (r, w2) \<Longrightarrow> emits (hw_event k) w w1 \<Longrightarrow> emits (hw_event k) w w2"
proof -
  have "emits (hw_event k) w w2"
    if "ring_bytes_loop ring n i t w1 = (r, w2)" "emits (hw_event k) w w1" for n i t w1
    using that by (induction n arbitrary: i t w1) (auto simp: Let_def split: prod.splits if_splits intro: emits_intros)
  then show "axidma_ring_bytes ring w1 = (r, w2) \<Longrightarrow> emits (hw_event k) w w1 \<Longrightarrow> emits (hw_event k) w w2"
    by (auto simp: axidma_ring_bytes_def)
qed

section \<open>The waits\<close>

lemma wait_body_after:
  assumes "wait_body d chan ring deadline s w1 = Some (r, w2)" and "emits (hw_event (u_fd (dma_uio d))) w w1"
  shows "emits (hw_event (u_fd (dma_uio d))) w w2"
  using assms
  by (auto simp: wait_body_def split: prod.splits if_splits option.splits)
    (assumption | erule emits_intros)+

lemma wait_packets_body_after:
  assumes "wait_packets_body d ring deadline s w1 = Some (r, w2)" and "emits (hw_event (u_fd (dma_uio d))) w w1"
  shows "emits (hw_event (u_fd (dma_uio d))) w w2"
  using assms
  by (auto simp: wait_packets_body_def split: prod.splits if_splits)
    (assumption | erule emits_intros)+

lemma axidma_wait_after [emits_intros]:
  assumes "axidma_wait d chan ring ms w1 = Some (r, w2)" and "emits (hw_event (u_fd (dma_uio d))) w w1"
  shows "emits (hw_event (u_fd (dma_uio d))) w w2"
proof -
  obtain t u where t: "now_ms w1 = (t, u)" by force
  with assms(1) have "c_loop (wait_body d chan ring (t + ms)) () u = Some (r, w2)"
    by (simp add: axidma_wait_def)
  then have "emits (hw_event (u_fd (dma_uio d))) u w2"
    by (rule emits_loop) (erule wait_body_after, rule emits_refl)
  with now_ms_after [OF t assms(2)] show ?thesis by (rule emits_trans)
qed

lemma axidma_wait_packets_after [emits_intros]:
  assumes "axidma_wait_packets d ring ms w1 = Some (r, w2)" and "emits (hw_event (u_fd (dma_uio d))) w w1"
  shows "emits (hw_event (u_fd (dma_uio d))) w w2"
proof -
  obtain t u where t: "now_ms w1 = (t, u)" by force
  with assms(1) have "c_loop (wait_packets_body d ring (t + ms)) () u = Some (r, w2)"
    by (simp add: axidma_wait_packets_def)
  then have "emits (hw_event (u_fd (dma_uio d))) u w2"
    by (rule emits_loop) (erule wait_packets_body_after, rule emits_refl)
  with now_ms_after [OF t assms(2)] show ?thesis by (rule emits_trans)
qed

text \<open>Both waits are loops with a deadline, if the interrupt wait is not interrupted for ever.\<close>

lemma wait_idle_returns:
  "\<exists>n. poll_intr_bound (world_env w) (u_fd (dma_uio d)) n \<Longrightarrow> returns (wait_idle d w)"
  by (auto simp: wait_idle_def intro: uio_irq_wait_returns)

lemma emits_env_hist: "emits P w w' \<Longrightarrow> world_env w' = world_env w \<and> length (hist w) \<le> length (hist w')"
  by (simp add: emits_env emits_length)

text \<open>The end of a round: the clock is read, it is not late, the loop idles.\<close>

lemma idle_round:
  assumes "now_ms u = (t, v)" and "\<not> t > deadline" and "wait_idle d v = Some (r, w1)"
    and "emits (hw_event k) w u"
  shows "\<exists>h. length (hist w) \<le> length h \<and> length h < length (hist w1) \<and> \<not> late_ms deadline (env_clock (world_env w) h)"
proof (intro exI [of _ "hist u"] conjI)
  have "emits (hw_event (u_fd (dma_uio d))) v w1" using assms(3) by (rule wait_idle_after) simp
  then show "length (hist u) < length (hist w1)"
    using now_ms_log [OF assms(1)] by (auto dest: emits_length)
  show "length (hist w) \<le> length (hist u)" using assms(4) by (rule emits_length)
  show "\<not> late_ms deadline (env_clock (world_env w) (hist u))"
    using now_ms_log [OF assms(1)] assms(2) emits_env [OF assms(4)] by (simp add: late_ms_def)
qed

interpretation wait: deadline_loop "wait_body d chan ring deadline" "late_ms deadline"
  "\<lambda>E. \<exists>n. poll_intr_bound E (u_fd (dma_uio d)) n" for d chan ring deadline
proof unfold_locales
  fix s w r w1 s1
  show "emits (\<lambda>_. True) w w1" if "wait_body d chan ring deadline s w = Some (r, w1)"
    using wait_body_after [OF that emits_refl] by (rule emits_mono) simp
  show "returns (wait_body d chan ring deadline s w)"
    if "\<exists>n. poll_intr_bound (world_env w) (u_fd (dma_uio d)) n"
  proof -
    have idle: "returns (wait_idle d v)" if "now_ms u = (t, v)" "emits (hw_event (u_fd (dma_uio d))) w u" for t u v
      using \<open>\<exists>n. _\<close> emits_env [OF now_ms_after [OF that]] by (intro wait_idle_returns) simp
    obtain sr w1 sy w2 sc w3 lst w4 t w5 where
      c: "uio_rd (dma_uio d) (AXIDMA_SR chan) w = (sr, w1)"
        "udmabuf_sync_for_cpu (r_db ring) (r_off ring) (ring_nbytes ring) w1 = (sy, w2)"
        "wait_scan ring (nat (r_count ring)) 0 w2 = (sc, w3)"
        "mem_load (status_addr ring (nat (r_count ring - 1))) w3 = (lst, w4)" "now_ms w4 = (t, w5)"
      by (metis prod.exhaust)
    have "returns (wait_idle d w5)"
      by (rule idle [OF c(5)]) (intro mem_load_after [OF c(4)] wait_scan_after [OF c(3)]
          to_cpu_after [OF c(2)] uio_rd_after [OF c(1)] emits_refl)
    then show ?thesis
      by (simp add: wait_body_def c split: option.split)
  qed
  show "\<exists>h. length (hist w) \<le> length h \<and> length h < length (hist w1) \<and> \<not> late_ms deadline (env_clock (world_env w) h)"
    if "wait_body d chan ring deadline s w = Some (Inl s1, w1)"
    using that
    by (auto simp: wait_body_def split: prod.splits if_splits option.splits)
      (erule (1) idle_round, assumption, (assumption | erule emits_intros | rule emits_refl)+)+
qed (rule late_ms_in_time)

interpretation packets: deadline_loop "wait_packets_body d ring deadline" "late_ms deadline"
  "\<lambda>E. \<exists>n. poll_intr_bound E (u_fd (dma_uio d)) n" for d ring deadline
proof unfold_locales
  fix s w r w1 s1
  show "emits (\<lambda>_. True) w w1" if "wait_packets_body d ring deadline s w = Some (r, w1)"
    using wait_packets_body_after [OF that emits_refl] by (rule emits_mono) simp
  show "returns (wait_packets_body d ring deadline s w)"
    if "\<exists>n. poll_intr_bound (world_env w) (u_fd (dma_uio d)) n"
  proof -
    have idle: "returns (wait_idle d v)" if "now_ms u = (t, v)" "emits (hw_event (u_fd (dma_uio d))) w u" for t u v
      using \<open>\<exists>n. _\<close> emits_env [OF now_ms_after [OF that]] by (intro wait_idle_returns) simp
    obtain sr w1 sy w2 sc w3 lst w4 t w5 where
      c: "uio_rd (dma_uio d) (AXIDMA_SR AXIDMA_S2MM) w = (sr, w1)"
        "udmabuf_sync_for_cpu (r_db ring) (r_off ring) (ring_nbytes ring) w1 = (sy, w2)"
        "packets_scan ring (nat (r_count ring)) 0 w2 = (sc, w3)"
        "mem_load (status_addr ring (nat (r_count ring - 1))) w3 = (lst, w4)" "now_ms w4 = (t, w5)"
      by (metis prod.exhaust)
    have "returns (wait_idle d w5)"
      by (rule idle [OF c(5)]) (intro mem_load_after [OF c(4)] packets_scan_after [OF c(3)]
          to_cpu_after [OF c(2)] uio_rd_after [OF c(1)] emits_refl)
    then show ?thesis
      by (simp add: wait_packets_body_def c)
  qed
  show "\<exists>h. length (hist w) \<le> length h \<and> length h < length (hist w1) \<and> \<not> late_ms deadline (env_clock (world_env w) h)"
    if "wait_packets_body d ring deadline s w = Some (Inl s1, w1)"
    using that
    by (auto simp: wait_packets_body_def split: prod.splits if_splits)
      (erule (1) idle_round, assumption, (assumption | erule emits_intros | rule emits_refl)+)+
qed (rule late_ms_in_time)

section \<open>What a wait reports\<close>

text \<open>The loads of the statuses \<open>sts\<close> of the descriptors from \<open>i\<close> on.\<close>

fun loads :: "axidma_ring \<Rightarrow> nat \<Rightarrow> u32 list \<Rightarrow> event list" where
  "loads ring i [] = []"
| "loads ring i (st # sts) = EvLoad (status_addr ring i) st # loads ring (Suc i) sts"

definition st_error :: "u32 \<Rightarrow> bool" where
  "st_error st \<longleftrightarrow> st AND AXIDMA_DESC_ERR_MASK \<noteq> 0"

definition st_eof :: "u32 \<Rightarrow> bool" where
  "st_eof st \<longleftrightarrow> st AND AXIDMA_DESC_EOF \<noteq> 0"

definition st_done :: "u32 \<Rightarrow> bool" where
  "st_done st \<longleftrightarrow> st AND AXIDMA_DESC_CMPLT \<noteq> 0"

lemmas st_defs = st_error_def st_eof_def st_done_def

lemma mem_load_hist: "mem_load a w = (st, w1) \<Longrightarrow> hist w1 = EvLoad a st # hist w"
  by (auto simp: mem_load_def Let_def)

text \<open>A scan that found the end of the frame saw no error up to it and no end before it.\<close>

lemma wait_scan_true:
  "wait_scan ring n i w = (Some True, w') \<Longrightarrow>
     \<exists>sts. sts \<noteq> [] \<and> length sts \<le> n \<and> hist w' = rev (loads ring i sts) @ hist w \<and>
       (\<forall>st\<in>set sts. \<not> st_error st) \<and> (\<forall>st\<in>set (butlast sts). \<not> st_eof st) \<and> st_eof (last sts)"
proof (induction n arbitrary: i w)
  case (Suc n)
  obtain st w1 where l: "mem_load (status_addr ring i) w = (st, w1)" by force
  note h = mem_load_hist [OF l]
  show ?case
  proof (cases "st_eof st")
    case True
    with Suc.prems l have "w' = w1" "\<not> st_error st" by (auto simp: st_defs split: if_splits)
    with True h show ?thesis by (intro exI [of _ "[st]"]) simp
  next
    case False
    with Suc.prems l have e: "\<not> st_error st" and r: "wait_scan ring n (Suc i) w1 = (Some True, w')"
      by (auto simp: st_defs split: if_splits)
    from Suc.IH [OF r] obtain sts where "sts \<noteq> []" "length sts \<le> n"
      "hist w' = rev (loads ring (Suc i) sts) @ hist w1" "\<forall>st\<in>set sts. \<not> st_error st"
      "\<forall>st\<in>set (butlast sts). \<not> st_eof st" "st_eof (last sts)" by blast
    with e False h show ?thesis by (intro exI [of _ "st # sts"]) simp
  qed
qed simp

lemma packets_scan_true:
  "packets_scan ring n i w = (True, w') \<Longrightarrow>
     \<exists>sts. length sts = n \<and> hist w' = rev (loads ring i sts) @ hist w \<and>
       (\<forall>st\<in>set sts. \<not> st_error st \<and> (st_done st \<longrightarrow> st_eof st))"
proof (induction n arbitrary: i w)
  case (Suc n)
  obtain st w1 where l: "mem_load (status_addr ring i) w = (st, w1)" by force
  from Suc.prems l have st: "\<not> st_error st" "st_done st \<longrightarrow> st_eof st"
    and r: "packets_scan ring n (Suc i) w1 = (True, w')" by (auto simp: st_defs split: if_splits)
  from Suc.IH [OF r] obtain sts where "length sts = n" "hist w' = rev (loads ring (Suc i) sts) @ hist w1"
    "\<forall>st\<in>set sts. \<not> st_error st \<and> (st_done st \<longrightarrow> st_eof st)" by blast
  with st mem_load_hist [OF l] show ?case by (intro exI [of _ "st # sts"]) simp
qed simp

text \<open>
  The last round of a wait that reports success: the channel had no error, the descriptors
  were handed to the CPU, and the loads that followed showed what the result says.
\<close>

definition channel_fine :: "axidma \<Rightarrow> u32 \<Rightarrow> axidma_ring \<Rightarrow> world \<Rightarrow> world \<Rightarrow> bool" where
  "channel_fine d chan ring u x \<longleftrightarrow>
     (\<exists>sr v. uio_rd (dma_uio d) (AXIDMA_SR chan) u = (sr, v) \<and> sr AND AXIDMA_SR_ANY_ERR = 0 \<and>
        udmabuf_sync_for_cpu (r_db ring) (r_off ring) (ring_nbytes ring) v = (0, x))"

definition frame_seen :: "axidma \<Rightarrow> axidma_ring \<Rightarrow> world \<Rightarrow> bool" where
  "frame_seen d ring w' \<longleftrightarrow>
     (\<exists>u x sts lst. channel_fine d AXIDMA_S2MM ring u x \<and>
        hist w' = EvLoad (status_addr ring (nat (r_count ring - 1))) lst # rev (loads ring 0 sts) @ hist x \<and>
        sts \<noteq> [] \<and> length sts \<le> nat (r_count ring) \<and> (\<forall>st\<in>set sts. \<not> st_error st) \<and>
        (\<forall>st\<in>set (butlast sts). \<not> st_eof st) \<and> st_eof (last sts))"

definition packets_seen :: "axidma \<Rightarrow> axidma_ring \<Rightarrow> world \<Rightarrow> bool" where
  "packets_seen d ring w' \<longleftrightarrow>
     (\<exists>u x sts lst. channel_fine d AXIDMA_S2MM ring u x \<and>
        hist w' = EvLoad (status_addr ring (nat (r_count ring - 1))) lst # rev (loads ring 0 sts) @ hist x \<and>
        length sts = nat (r_count ring) \<and> st_done lst \<and>
        (\<forall>st\<in>set sts. \<not> st_error st \<and> (st_done st \<longrightarrow> st_eof st)))"

lemma wait_body_done:
  assumes "wait_body d AXIDMA_S2MM ring dl s w = Some (Inr 0, w')"
  shows "frame_seen d ring w'"
proof -
  obtain sr w1 sy w2 sc w3 lst w4 t w5 where
    c: "uio_rd (dma_uio d) (AXIDMA_SR AXIDMA_S2MM) w = (sr, w1)"
      "udmabuf_sync_for_cpu (r_db ring) (r_off ring) (ring_nbytes ring) w1 = (sy, w2)"
      "wait_scan ring (nat (r_count ring)) 0 w2 = (sc, w3)"
      "mem_load (status_addr ring (nat (r_count ring - 1))) w3 = (lst, w4)" "now_ms w4 = (t, w5)"
    by (metis prod.exhaust)
  with assms have r: "sr AND AXIDMA_SR_ANY_ERR = 0" "sy = 0" "sc = Some True" "w' = w4"
    by (auto simp: wait_body_def wait_idle_def split: if_splits option.splits Option.bind_splits)
  with c have "channel_fine d AXIDMA_S2MM ring w w2" by (auto simp: channel_fine_def)
  moreover from c(3) r obtain sts where "sts \<noteq> []" "length sts \<le> nat (r_count ring)"
    "hist w3 = rev (loads ring 0 sts) @ hist w2" "\<forall>st\<in>set sts. \<not> st_error st"
    "\<forall>st\<in>set (butlast sts). \<not> st_eof st" "st_eof (last sts)"
    using wait_scan_true by blast
  ultimately show ?thesis
    unfolding frame_seen_def using mem_load_hist [OF c(4)] r by auto
qed

lemma wait_packets_body_done:
  assumes "wait_packets_body d ring dl s w = Some (Inr 0, w')"
  shows "packets_seen d ring w'"
proof -
  obtain sr w1 sy w2 sc w3 lst w4 t w5 where
    c: "uio_rd (dma_uio d) (AXIDMA_SR AXIDMA_S2MM) w = (sr, w1)"
      "udmabuf_sync_for_cpu (r_db ring) (r_off ring) (ring_nbytes ring) w1 = (sy, w2)"
      "packets_scan ring (nat (r_count ring)) 0 w2 = (sc, w3)"
      "mem_load (status_addr ring (nat (r_count ring - 1))) w3 = (lst, w4)" "now_ms w4 = (t, w5)"
    by (metis prod.exhaust)
  with assms have r: "sr AND AXIDMA_SR_ANY_ERR = 0" "sy = 0" sc "st_done lst" "w' = w4"
    by (auto simp: wait_packets_body_def wait_idle_def st_defs split: if_splits Option.bind_splits)
  with c have "channel_fine d AXIDMA_S2MM ring w w2" by (auto simp: channel_fine_def)
  moreover from c(3) r(3) obtain sts where "length sts = nat (r_count ring)"
    "hist w3 = rev (loads ring 0 sts) @ hist w2"
    "\<forall>st\<in>set sts. \<not> st_error st \<and> (st_done st \<longrightarrow> st_eof st)"
    using packets_scan_true [of ring "nat (r_count ring)" 0 w2 w3] by auto
  ultimately show ?thesis
    unfolding packets_seen_def using mem_load_hist [OF c(4)] r by auto
qed

text \<open>A loop whose exit with 0 establishes \<open>Q\<close>.\<close>

lemma c_loop_exit:
  assumes "c_loop body s w = Some (0 :: int, w')" and "\<And>s w w'. body s w = Some (Inr 0, w') \<Longrightarrow> Q w'"
  shows "Q w'"
proof -
  have "(0 :: int) = 0 \<longrightarrow> Q w'"
    by (rule c_loop_inv [where I = "\<lambda>_ _. True" and Q = "\<lambda>a w'. a = 0 \<longrightarrow> Q w'", OF assms(1)])
      (auto intro: assms(2))
  then show ?thesis by simp
qed

lemma wait_frame_seen: "axidma_wait d AXIDMA_S2MM ring ms w = Some (0, w') \<Longrightarrow> frame_seen d ring w'"
  by (auto simp: axidma_wait_def split: prod.splits elim!: c_loop_exit intro: wait_body_done)

lemma wait_packets_seen: "axidma_wait_packets d ring ms w = Some (0, w') \<Longrightarrow> packets_seen d ring w'"
  by (auto simp: axidma_wait_packets_def split: prod.splits elim!: c_loop_exit intro: wait_packets_body_done)

text \<open>The results of the waits, and that they come back.\<close>

lemma loop_codes:
  assumes "c_loop body s w = Some (rc, w')"
    and "\<And>s w a w1. body s w = Some (Inr a, w1) \<Longrightarrow> a = 0 \<or> a = -1 \<or> a = (-2 :: int)"
  shows "rc = 0 \<or> rc = -1 \<or> rc = -2"
  using assms(1)
  by (rule c_loop_inv [where I = "\<lambda>_ _. True" and Q = "\<lambda>a _. a = 0 \<or> a = -1 \<or> a = -2"])
    (simp_all add: assms(2))

lemma wait_codes:
  "axidma_wait d chan ring ms w = Some (rc, w') \<Longrightarrow> rc = 0 \<or> rc = -1 \<or> rc = -2"
  unfolding axidma_wait_def
  by (auto split: prod.splits dest!: loop_codes
      simp: wait_body_def wait_idle_def split: if_splits option.splits Option.bind_splits)

lemma wait_packets_codes:
  "axidma_wait_packets d ring ms w = Some (rc, w') \<Longrightarrow> rc = 0 \<or> rc = -1 \<or> rc = -2"
  unfolding axidma_wait_packets_def
  by (auto split: prod.splits dest!: loop_codes
      simp: wait_packets_body_def wait_idle_def split: if_splits Option.bind_splits)

lemma hw_ops_return:
  assumes "clock_diverges (world_env w)"
  shows "returns (axidma_reset d w)"
    and "\<exists>n. poll_intr_bound (world_env w) (u_fd (dma_uio d)) n \<Longrightarrow> returns (axidma_wait d chan ring ms w)"
    and "\<exists>n. poll_intr_bound (world_env w) (u_fd (dma_uio d)) n \<Longrightarrow> returns (axidma_wait_packets d ring ms w)"
proof -
  have now: "now_ms w = (t, u) \<Longrightarrow> world_env u = world_env w" for t u
    by (auto dest: now_ms_log)
  show "returns (axidma_reset d w)"
    unfolding axidma_reset_def Let_def
    by (auto split: prod.splits dest!: now intro!: reset.loop_returns simp: log_simps assms)
  show "returns (axidma_wait d chan ring ms w)" if "\<exists>n. poll_intr_bound (world_env w) (u_fd (dma_uio d)) n"
    using that assms unfolding axidma_wait_def
    by (auto split: prod.splits dest!: now intro!: wait.loop_returns)
  show "returns (axidma_wait_packets d ring ms w)" if "\<exists>n. poll_intr_bound (world_env w) (u_fd (dma_uio d)) n"
    using that assms unfolding axidma_wait_packets_def
    by (auto split: prod.splits dest!: now intro!: packets.loop_returns)
qed

end
