(* ===== verification/OJLS_Engine.thy ===== *)
theory OJLS_Engine
  imports OJLS_Wait
begin

text \<open>
  A channel of the DMA engine as the driver leaves it: the registers it wrote, the chain of
  descriptors the engine follows from them, and the number of bytes a finished ring holds.
\<close>

unbundle bit_operations_syntax

section \<open>The registers the driver wrote\<close>

fun reg_written :: "event list \<Rightarrow> addr \<Rightarrow> u32" where
  "reg_written [] a = 0"
| "reg_written (EvRegWrite b v # h) a = (if a = b then v else reg_written h a)"
| "reg_written (_ # h) a = reg_written h a"

definition chan_reg64 :: "event list \<Rightarrow> axidma \<Rightarrow> u32 \<Rightarrow> u32 \<Rightarrow> u64" where
  "chan_reg64 h d msb lsb = join64 (reg_written h (reg_addr (dma_uio d) msb)) (reg_written h (reg_addr (dma_uio d) lsb))"

text \<open>What the engine of a channel does: the chain from CURDESC to TAILDESC.\<close>

definition engine_walk :: "event list \<Rightarrow> axidma \<Rightarrow> u32 \<Rightarrow> axidma_ring \<Rightarrow> dma_seg list option" where
  "engine_walk h d chan ring =
     dma_walk h ring (nat (r_count ring)) (chan_reg64 h d (AXIDMA_CURDESC_MSB chan) (AXIDMA_CURDESC chan))
       (chan_reg64 h d (AXIDMA_TAILDESC_MSB chan) (AXIDMA_TAILDESC chan))"

definition is_chan :: "u32 \<Rightarrow> bool" where
  "is_chan chan \<longleftrightarrow> chan = AXIDMA_MM2S \<or> chan = AXIDMA_S2MM"

text \<open>Starting a channel: the last six events, with the tail pointer as the last write.\<close>

lemma sg_start_events:
  assumes "0 < r_count ring"
  shows "axidma_sg_start d chan ring w = (0, w\<lparr>hist :=
    [EvRegWrite (reg_addr (dma_uio d) (AXIDMA_TAILDESC chan)) (ucast (ring_tail ring)),
     EvRegWrite (reg_addr (dma_uio d) (AXIDMA_TAILDESC_MSB chan)) (ucast (drop_bit 32 (ring_tail ring))),
     EvRegWrite (reg_addr (dma_uio d) (AXIDMA_SR chan)) (AXIDMA_SR_IOC OR AXIDMA_SR_ERR),
     EvRegWrite (reg_addr (dma_uio d) (AXIDMA_CR chan)) (AXIDMA_CR_RS OR AXIDMA_CR_IOC_IRQ OR AXIDMA_CR_ERR_IRQ),
     EvRegWrite (reg_addr (dma_uio d) (AXIDMA_CURDESC_MSB chan)) (ucast (drop_bit 32 (r_phys ring))),
     EvRegWrite (reg_addr (dma_uio d) (AXIDMA_CURDESC chan)) (ucast (r_phys ring))] @ hist w\<rparr>)"
  using assms by (simp add: axidma_sg_start_def Let_def log_simps log_def ring_tail_def)

lemma chan_addrs:
  "reg_addr u (AXIDMA_CURDESC AXIDMA_MM2S) = u_regs u + 0x08" "reg_addr u (AXIDMA_CURDESC_MSB AXIDMA_MM2S) = u_regs u + 0x0C"
  "reg_addr u (AXIDMA_TAILDESC AXIDMA_MM2S) = u_regs u + 0x10" "reg_addr u (AXIDMA_TAILDESC_MSB AXIDMA_MM2S) = u_regs u + 0x14"
  "reg_addr u (AXIDMA_CR AXIDMA_MM2S) = u_regs u" "reg_addr u (AXIDMA_SR AXIDMA_MM2S) = u_regs u + 0x04"
  "reg_addr u (AXIDMA_CURDESC AXIDMA_S2MM) = u_regs u + 0x38" "reg_addr u (AXIDMA_CURDESC_MSB AXIDMA_S2MM) = u_regs u + 0x3C"
  "reg_addr u (AXIDMA_TAILDESC AXIDMA_S2MM) = u_regs u + 0x40" "reg_addr u (AXIDMA_TAILDESC_MSB AXIDMA_S2MM) = u_regs u + 0x44"
  "reg_addr u (AXIDMA_CR AXIDMA_S2MM) = u_regs u + 0x30" "reg_addr u (AXIDMA_SR AXIDMA_S2MM) = u_regs u + 0x34"
  by (simp_all add: reg_addr_def consts_defs)

lemma dma_walk_cong:
  "(\<And>a. stored h' a = stored h a) \<Longrightarrow> dma_walk h' ring n cur tail = dma_walk h ring n cur tail"
  by (induction n arbitrary: cur) (simp_all split: option.split)

lemma stored_app:
  "list_all (\<lambda>e. \<forall>a vs. e \<noteq> EvStore a vs) es \<Longrightarrow> stored (es @ h) a = stored h a"
proof (induction es)
  case (Cons e es)
  then show ?case by (cases e) auto
qed simp

text \<open>Two channels started one after the other: each follows its own ring.\<close>

lemma both_started:
  assumes s2mm: "axidma_sg_start d AXIDMA_S2MM rx w = (r1, w1)" "0 < r_count rx"
    and mm2s: "axidma_sg_start d AXIDMA_MM2S tx w1 = (r2, w2)" "0 < r_count tx"
    and walks: "dma_walk (hist w) rx (nat (r_count rx)) (r_phys rx) (ring_tail rx) = Some rs"
      "dma_walk (hist w) tx (nat (r_count tx)) (r_phys tx) (ring_tail tx) = Some ts"
  shows "r1 = 0 \<and> r2 = 0 \<and> engine_walk (hist w2) d AXIDMA_S2MM rx = Some rs \<and>
    engine_walk (hist w2) d AXIDMA_MM2S tx = Some ts"
proof -
  have w1: "w1 = w\<lparr>hist := hist w1\<rparr>" "r1 = 0" and h1: "hist w1 = hist (snd (axidma_sg_start d AXIDMA_S2MM rx w))"
    using s2mm sg_start_events [OF s2mm(2), of d AXIDMA_S2MM w] by auto
  have h2: "hist w2 = hist (snd (axidma_sg_start d AXIDMA_MM2S tx w1))" and r2: "r2 = 0"
    using mm2s sg_start_events [OF mm2s(2), of d AXIDMA_MM2S w1] by auto
  have st: "stored (hist w2) a = stored (hist w) a" for a
    unfolding h2 sg_start_events [OF mm2s(2)] h1 sg_start_events [OF s2mm(2)] by simp
  have regs: "chan_reg64 (hist w2) d (AXIDMA_CURDESC_MSB AXIDMA_S2MM) (AXIDMA_CURDESC AXIDMA_S2MM) = r_phys rx"
    "chan_reg64 (hist w2) d (AXIDMA_TAILDESC_MSB AXIDMA_S2MM) (AXIDMA_TAILDESC AXIDMA_S2MM) = ring_tail rx"
    "chan_reg64 (hist w2) d (AXIDMA_CURDESC_MSB AXIDMA_MM2S) (AXIDMA_CURDESC AXIDMA_MM2S) = r_phys tx"
    "chan_reg64 (hist w2) d (AXIDMA_TAILDESC_MSB AXIDMA_MM2S) (AXIDMA_TAILDESC AXIDMA_MM2S) = ring_tail tx"
    unfolding h2 sg_start_events [OF mm2s(2)] h1 sg_start_events [OF s2mm(2)]
    by (simp_all add: chan_reg64_def chan_addrs join64_split)
  show ?thesis
    using w1 r2 walks dma_walk_cong [of "hist w2" "hist w", OF st] by (simp add: engine_walk_def regs)
qed

section \<open>The bytes a finished ring holds\<close>

text \<open>
  The descriptors are at rest: from \<open>w\<close> on, the status words of the first \<open>length sts\<close>
  descriptors read as \<open>sts\<close>.
\<close>

definition at_rest :: "world \<Rightarrow> axidma_ring \<Rightarrow> u32 list \<Rightarrow> bool" where
  "at_rest w ring sts \<longleftrightarrow>
     (\<forall>es i. i < length sts \<longrightarrow> env_word (world_env w) (es @ hist w) (status_addr ring i) = sts ! i)"

text \<open>The statuses of a frame: those up to the first that carries the end mark.\<close>

fun frame_of :: "u32 list \<Rightarrow> u32 list" where
  "frame_of [] = []"
| "frame_of (st # sts) = (if st_eof st then [st] else st # frame_of sts)"

definition st_len :: "u32 \<Rightarrow> u32" where
  "st_len st = st AND AXIDMA_DESC_LEN_MASK"

lemma at_rest_load:
  assumes "at_rest w ring sts" and "emits P w u" and "i < length sts"
  shows "mem_load (status_addr ring i) u = (sts ! i, log (EvLoad (status_addr ring i) (sts ! i)) u)"
  using assms unfolding at_rest_def mem_load_def emits_def by (auto simp: Let_def)

lemma ring_bytes_loop_rest:
  assumes "at_rest w ring sts" and "emits (hw_event 0) w u" and "n + i = length sts"
  shows "fst (ring_bytes_loop ring n i t u) = t + sum_list (map st_len (frame_of (drop i sts)))"
  using assms(2,3)
proof (induction n arbitrary: i t u)
  case (Suc n)
  then have i: "i < length sts" by simp
  note l = at_rest_load [OF assms(1) Suc.prems(1) i]
  have "emits (hw_event 0) w (log (EvLoad (status_addr ring i) (sts ! i)) u)"
    using Suc.prems(1) by (auto intro: emits_log)
  with Suc l i show ?case
    by (simp add: Let_def Cons_nth_drop_Suc [symmetric] st_eof_def st_len_def add.assoc)
qed simp

lemma ring_bytes_rest:
  assumes "at_rest w ring sts" and "length sts = nat (r_count ring)"
  shows "fst (axidma_ring_bytes ring w) = sum_list (map st_len (frame_of sts))"
  unfolding axidma_ring_bytes_def using assms ring_bytes_loop_rest [OF assms(1) emits_refl, of "nat (r_count ring)" 0 0] by simp

end
