(* ===== verification/OJLS_Hw.thy ===== *)
theory OJLS_Hw
  imports OJLS_Engine
begin

text \<open>
  \<open>ojls_regs.h\<close> and the hardware layer of \<open>ojls_server.c\<close>: the register map of the encoder,
  the buffers and their regions, opening and closing of the hardware, the configuration of
  the core, the threshold of the ready gate, and the recovery after a failed transfer.
\<close>

unbundle bit_operations_syntax

section \<open>The register map of the encoder\<close>

definition OJLS_REG_ID :: u32 where [consts_defs]: "OJLS_REG_ID = 0x00"
definition OJLS_REG_VERSION :: u32 where [consts_defs]: "OJLS_REG_VERSION = 0x04"
definition OJLS_REG_CAPS :: u32 where [consts_defs]: "OJLS_REG_CAPS = 0x08"
definition OJLS_REG_MAXDIM :: u32 where [consts_defs]: "OJLS_REG_MAXDIM = 0x0C"
definition OJLS_REG_WIDTH :: u32 where [consts_defs]: "OJLS_REG_WIDTH = 0x10"
definition OJLS_REG_HEIGHT :: u32 where [consts_defs]: "OJLS_REG_HEIGHT = 0x14"
definition OJLS_REG_CTRL :: u32 where [consts_defs]: "OJLS_REG_CTRL = 0x18"
definition OJLS_REG_STATUS :: u32 where [consts_defs]: "OJLS_REG_STATUS = 0x1C"

definition OJLS_ID_VALUE :: u32 where [consts_defs]: "OJLS_ID_VALUE = 0x4F4A4C53"
definition OJLS_CTRL_APPLY :: u32 where [consts_defs]: "OJLS_CTRL_APPLY = 0x1"
definition OJLS_STATUS_BUSY :: u32 where [consts_defs]: "OJLS_STATUS_BUSY = 0x1"
definition OJLS_STATUS_TREADY :: u32 where [consts_defs]: "OJLS_STATUS_TREADY = 0x2"

definition OJLS_CAPS_BITNESS :: "u32 \<Rightarrow> u32" where "OJLS_CAPS_BITNESS caps = caps AND 0xFF"
definition OJLS_CAPS_OUT_BYTES :: "u32 \<Rightarrow> u32" where
  "OJLS_CAPS_OUT_BYTES caps = drop_bit 8 caps AND 0xFF"
definition OJLS_MAXDIM_WIDTH :: "u32 \<Rightarrow> u32" where "OJLS_MAXDIM_WIDTH maxdim = maxdim AND 0xFFFF"
definition OJLS_MAXDIM_HEIGHT :: "u32 \<Rightarrow> u32" where
  "OJLS_MAXDIM_HEIGHT maxdim = drop_bit 16 maxdim AND 0xFFFF"

definition OJLS_MIN_WIDTH :: u32 where [consts_defs]: "OJLS_MIN_WIDTH = 4"
definition OJLS_MIN_HEIGHT :: u32 where [consts_defs]: "OJLS_MIN_HEIGHT = 1"

definition READY_GATE_THRESH :: u32 where [consts_defs]: "READY_GATE_THRESH = 0x00"

section \<open>State\<close>

text \<open>
  A region points into one of the buffers of \<open>struct hw\<close>, which do not change between
  \<open>hw_open\<close> and \<open>hw_close\<close>: the region holds the buffer itself.
\<close>

record dmabuf_region =
  rg_b :: udmabuf
  rg_off :: size_t
  rg_size :: size_t

definition region_mem :: "dmabuf_region \<Rightarrow> addr" where
  "region_mem r = b_mem (rg_b r) + rg_off r"

definition region_phys :: "dmabuf_region \<Rightarrow> u64" where
  "region_phys r = b_phys (rg_b r) + ucast (rg_off r)"

record hw =
  hw_regs :: uio
  hw_gate :: uio
  hw_dma :: axidma
  hw_tx_buf :: udmabuf
  hw_rx_buf :: udmabuf
  hw_desc_buf :: udmabuf
  hw_tx :: dmabuf_region
  hw_rx :: dmabuf_region
  hw_bitness :: u32
  hw_max_width :: u32
  hw_max_height :: u32

definition region_zero :: dmabuf_region where
  "region_zero = \<lparr>rg_b = udmabuf_zero, rg_off = 0, rg_size = 0\<rparr>"

definition hw_zero :: hw where
  "hw_zero = \<lparr>hw_regs = uio_zero, hw_gate = uio_zero, hw_dma = \<lparr>dma_uio = uio_zero\<rparr>,
     hw_tx_buf = udmabuf_zero, hw_rx_buf = udmabuf_zero, hw_desc_buf = udmabuf_zero,
     hw_tx = region_zero, hw_rx = region_zero, hw_bitness = 0, hw_max_width = 0, hw_max_height = 0\<rparr>"

record options =
  opt_port :: int
  opt_regs_name :: string
  opt_dma_name :: string
  opt_gate_name :: string
  opt_tx_buf :: "string option"
  opt_rx_buf :: "string option"
  opt_desc_buf :: "string option"
  opt_timeout_ms :: int
  opt_loopback :: bool

section \<open>Opening and closing the hardware\<close>

definition now_us :: "world \<Rightarrow> int \<times> world" where
  "now_us w = (let ((sec, nsec), w1) = sys_clock w in (sec * 1000000 + nsec div 1000, w1))"

text \<open>The three buffers, opened by name and in this order up to the first failure.\<close>

definition hw_open_bufs :: "options \<Rightarrow> hw \<Rightarrow> (int \<times> hw) io" where
  "hw_open_bufs opt hw w =
     (let tx_name = (case opt_tx_buf opt of Some n \<Rightarrow> n | None \<Rightarrow> ''udmabuf-ojls-tx'');
          rx_name = (case opt_rx_buf opt of Some n \<Rightarrow> n | None \<Rightarrow> ''udmabuf-ojls-rx'');
          desc_name = (case opt_desc_buf opt of Some n \<Rightarrow> n | None \<Rightarrow> ''udmabuf-ojls-desc'');
          ((rc1, tx), w1) = udmabuf_open tx_name w;
          hw1 = hw\<lparr>hw_tx_buf := tx\<rparr>
      in if rc1 \<noteq> 0 then Some ((-1, hw1), w1)
         else
           (let ((rc2, rx), w2) = udmabuf_open rx_name w1; hw2 = hw1\<lparr>hw_rx_buf := rx\<rparr>
            in if rc2 \<noteq> 0 then Some ((-1, hw2), w2)
               else
                 (let ((rc3, desc), w3) = udmabuf_open desc_name w2; hw3 = hw2\<lparr>hw_desc_buf := desc\<rparr>
                  in if rc3 \<noteq> 0 then Some ((-1, hw3), w3)
                     else
                       Some ((0, hw3\<lparr>hw_tx := \<lparr>rg_b = tx, rg_off = 0, rg_size = b_size tx\<rparr>,
                                      hw_rx := \<lparr>rg_b = rx, rg_off = 0, rg_size = b_size rx\<rparr>\<rparr>), w3))))"

definition hw_open :: "options \<Rightarrow> (int \<times> hw) io" where
  "hw_open opt w =
     (let ((rc, regs), w1) = uio_open (opt_regs_name opt) w; hw1 = hw_zero\<lparr>hw_regs := regs\<rparr>
      in if rc \<noteq> 0 then Some ((-1, hw1), w1)
         else
           (let (idr, w2) = uio_rd regs OJLS_REG_ID w1
            in if idr \<noteq> OJLS_ID_VALUE then Some ((-1, hw1), w2)
               else
                 (let (version, w3) = uio_rd regs OJLS_REG_VERSION w2;
                      (caps, w4) = uio_rd regs OJLS_REG_CAPS w3;
                      (maxdim, w5) = uio_rd regs OJLS_REG_MAXDIM w4;
                      hw2 = hw1\<lparr>hw_bitness := OJLS_CAPS_BITNESS caps,
                                hw_max_width := OJLS_MAXDIM_WIDTH maxdim,
                                hw_max_height := OJLS_MAXDIM_HEIGHT maxdim\<rparr>;
                      ((rc2, gate), w6) = uio_open (opt_gate_name opt) w5;
                      hw3 = hw2\<lparr>hw_gate := gate\<rparr>
                  in if rc2 \<noteq> 0 then Some ((-1, hw3), w6)
                     else do {
                       ((rc3, dma), w7) \<leftarrow> axidma_open (opt_dma_name opt) w6;
                       let hw4 = hw3\<lparr>hw_dma := dma\<rparr>;
                       if rc3 \<noteq> 0 then Some ((-1, hw4), w7) else hw_open_bufs opt hw4 w7
                     })))"

definition hw_close :: "hw \<Rightarrow> world \<Rightarrow> hw \<times> world" where
  "hw_close hw w =
     (let (desc, w1) = udmabuf_close (hw_desc_buf hw) w;
          (rx, w2) = udmabuf_close (hw_rx_buf hw) w1;
          (tx, w3) = udmabuf_close (hw_tx_buf hw) w2;
          (dma, w4) = axidma_close (hw_dma hw) w3;
          (gate, w5) = uio_close (hw_gate hw) w4;
          (regs, w6) = uio_close (hw_regs hw) w5
      in (hw\<lparr>hw_desc_buf := desc, hw_rx_buf := rx, hw_tx_buf := tx, hw_dma := dma,
             hw_gate := gate, hw_regs := regs\<rparr>, w6))"

section \<open>Configuring the core and the gate\<close>

definition busy_body :: "hw \<Rightarrow> int \<Rightarrow> unit \<Rightarrow> (unit + int) io" where
  "busy_body hw deadline s w =
     (let (st, w1) = uio_rd (hw_regs hw) OJLS_REG_STATUS w
      in if st AND OJLS_STATUS_BUSY \<noteq> 0 then
           (let (t, w2) = now_us w1 in if t > deadline then Some (Inr (-1), w2) else Some (Inl (), w2))
         else Some (Inr 0, w1))"

text \<open>The dimensions read back; the height is only read when the width was taken.\<close>

definition dims_clamped :: "hw \<Rightarrow> u16 \<Rightarrow> u16 \<Rightarrow> world \<Rightarrow> bool \<times> world" where
  "dims_clamped hw width height w =
     (let (rw, w1) = uio_rd (hw_regs hw) OJLS_REG_WIDTH w
      in if rw \<noteq> ucast width then (True, w1)
         else (let (rh, w2) = uio_rd (hw_regs hw) OJLS_REG_HEIGHT w1 in (rh \<noteq> ucast height, w2)))"

definition hw_configure :: "hw \<Rightarrow> u16 \<Rightarrow> u16 \<Rightarrow> int io" where
  "hw_configure hw width height w =
     (let (t, w1) = now_us w;
          deadline = t + 100000;
          w2 = uio_wr (hw_regs hw) OJLS_REG_WIDTH (ucast width) w1;
          w3 = uio_wr (hw_regs hw) OJLS_REG_HEIGHT (ucast height) w2;
          (clamped, w4) = dims_clamped hw width height w3
      in if clamped then Some (-1, w4)
         else
           (let w5 = uio_wr (hw_regs hw) OJLS_REG_CTRL OJLS_CTRL_APPLY w4
            in c_loop (busy_body hw deadline) () w5))"

definition gate_thresh :: "u32 \<Rightarrow> u32" where
  "gate_thresh ready_pct = ready_pct * 65536 div 100"

definition gate_set :: "hw \<Rightarrow> u32 \<Rightarrow> world \<Rightarrow> int \<times> world" where
  "gate_set hw ready_pct w =
     (let thresh = gate_thresh ready_pct;
          w1 = uio_wr (hw_gate hw) READY_GATE_THRESH thresh w;
          (v, w2) = uio_rd (hw_gate hw) READY_GATE_THRESH w1
      in (if v = thresh then 0 else -1, w2))"

definition hw_recover :: "hw \<Rightarrow> u16 \<Rightarrow> u16 \<Rightarrow> unit io" where
  "hw_recover hw width height w = do {
     (_, w1) \<leftarrow> axidma_reset (hw_dma hw) w;
     (_, w2) \<leftarrow> hw_configure hw width height w1;
     Some ((), w2)
   }"

section \<open>What the operations do to the world\<close>

lemma now_us_log: "now_us w = (t, w1) \<Longrightarrow> w1 = log (EvClock (fst (env_clock (world_env w) (hist w))) (snd (env_clock (world_env w) (hist w)))) w
    \<and> t = fst (env_clock (world_env w) (hist w)) * 1000000 + snd (env_clock (world_env w) (hist w)) div 1000"
  by (auto simp: now_us_def sys_clock_def Let_def split: prod.splits)

lemma now_us_after [emits_intros]:
  "now_us w1 = (t, w2) \<Longrightarrow> emits (hw_event k) w w1 \<Longrightarrow> emits (hw_event k) w w2"
  by (auto dest!: now_us_log intro: emits_log)

lemma busy_body_after:
  "busy_body hw dl s w1 = Some (r, w2) \<Longrightarrow> emits (hw_event k) w w1 \<Longrightarrow> emits (hw_event k) w w2"
  by (auto simp: busy_body_def split: prod.splits if_splits) (assumption | erule emits_intros)+

text \<open>\<open>hw_configure\<close> up to its loop: what it has written and read back by then.\<close>

definition dims_events :: "hw \<Rightarrow> u16 \<Rightarrow> u16 \<Rightarrow> event list" where
  "dims_events hw width height =
     [EvRegWrite (reg_addr (hw_regs hw) OJLS_REG_CTRL) OJLS_CTRL_APPLY,
      EvRegRead (reg_addr (hw_regs hw) OJLS_REG_HEIGHT) (ucast height),
      EvRegRead (reg_addr (hw_regs hw) OJLS_REG_WIDTH) (ucast width),
      EvRegWrite (reg_addr (hw_regs hw) OJLS_REG_HEIGHT) (ucast height),
      EvRegWrite (reg_addr (hw_regs hw) OJLS_REG_WIDTH) (ucast width)]"

lemma hw_configure_cases:
  assumes "hw_configure hw width height w = Some (rc, w')"
  obtains "rc = -1" "\<And>k. emits (hw_event k) w w'"
  | dl u where "c_loop (busy_body hw dl) () u = Some (rc, w')" "\<And>k. emits (hw_event k) w u"
      "\<exists>s n. hist u = dims_events hw width height @ EvClock s n # hist w"
proof -
  obtain t w1 where c: "now_us w = (t, w1)" by force
  define w3 where "w3 = uio_wr (hw_regs hw) OJLS_REG_HEIGHT (ucast height) (uio_wr (hw_regs hw) OJLS_REG_WIDTH (ucast width) w1)"
  obtain b w4 where d: "dims_clamped hw width height w3 = (b, w4)" by force
  have e3: "emits (hw_event k) w w3" for k
    unfolding w3_def by (intro emits_steps now_us_after [OF c] emits_refl)
  have e4: "emits (hw_event k) w w4" for k
    using d e3 by (auto simp: dims_clamped_def split: prod.splits if_splits intro: emits_intros)
  show thesis
  proof (cases b)
    case True
    with assms c d w3_def have "rc = -1" "w' = w4" by (simp_all add: hw_configure_def)
    with e4 show thesis by (intro that(1)) simp_all
  next
    case False
    let ?u = "uio_wr (hw_regs hw) OJLS_REG_CTRL OJLS_CTRL_APPLY w4"
    from False assms c d w3_def have "c_loop (busy_body hw (t + 100000)) () ?u = Some (rc, w')"
      by (simp add: hw_configure_def)
    moreover have "hist ?u = dims_events hw width height @ tl (hist w1) \<or> hist ?u = dims_events hw width height @ hist w1"
      using False d unfolding w3_def
      by (auto simp: dims_clamped_def log_simps Let_def dims_events_def split: if_splits)
    moreover have "hist ?u = dims_events hw width height @ hist w1"
      using False d unfolding w3_def
      by (auto simp: dims_clamped_def log_simps Let_def dims_events_def split: if_splits)
    ultimately show thesis
      using now_us_log [OF c] by (intro that(2)) (auto intro!: emits_steps e4)
  qed
qed

lemma hw_configure_after [emits_intros]:
  assumes "hw_configure hw wd ht w1 = Some (r, w2)" and "emits (hw_event k) w w1"
  shows "emits (hw_event k) w w2"
  using assms(1)
proof (cases rule: hw_configure_cases)
  case 1
  with assms(2) show ?thesis by (blast intro: emits_trans)
next
  case (2 dl u)
  from 2(1) have "emits (hw_event k) u w2"
    by (rule emits_loop) (erule busy_body_after, rule emits_refl)
  with 2(2) assms(2) show ?thesis by (blast intro: emits_trans)
qed

lemma gate_set_after [emits_intros]:
  "gate_set hw pct w1 = (r, w2) \<Longrightarrow> emits (hw_event k) w w1 \<Longrightarrow> emits (hw_event k) w w2"
  by (auto simp: gate_set_def Let_def split: prod.splits intro: uio_rd_after intro!: emits_steps)

lemma hw_recover_after [emits_intros]:
  "hw_recover hw wd ht w1 = Some (r, w2) \<Longrightarrow> emits (hw_event k) w w1 \<Longrightarrow> emits (hw_event k) w w2"
  by (auto simp: hw_recover_def split: Option.bind_splits) (assumption | erule emits_intros)+

text \<open>The poll of STATUS.BUSY is one more loop with a deadline.\<close>

definition late_us :: "int \<Rightarrow> int \<times> int \<Rightarrow> bool" where
  "late_us deadline t \<longleftrightarrow> fst t * 1000000 + snd t div 1000 > deadline"

interpretation busy: deadline_loop "busy_body hw deadline" "late_us deadline" "\<lambda>_. True" for hw deadline
proof unfold_locales
  fix s w r w1 s1
  show "returns (busy_body hw deadline s w)"
    by (auto simp: busy_body_def split: prod.splits)
  show "busy_body hw deadline s w = Some (r, w1) \<Longrightarrow> emits (\<lambda>_. True) w w1"
    by (rule emits_mono [OF busy_body_after [OF _ emits_refl]]) auto
  show "\<exists>h. length (hist w) \<le> length h \<and> length h < length (hist w1) \<and> \<not> late_us deadline (env_clock (world_env w) h)"
    if "busy_body hw deadline s w = Some (Inl s1, w1)"
    using that
    by (auto simp: busy_body_def log_simps Let_def late_us_def split: prod.splits if_splits dest!: now_us_log)
      (metis length_Cons lessI less_or_eq_imp_le)
  show "\<exists>s. \<forall>sec nsec. s < sec \<longrightarrow> 0 \<le> nsec \<longrightarrow> late_us deadline (sec, nsec)"
  proof (intro exI allI impI)
    fix sec nsec :: int
    assume "\<bar>deadline\<bar> < sec" and "0 \<le> nsec"
    then have "0 \<le> nsec div 1000" "\<bar>deadline\<bar> < sec * 1000000" by (simp_all add: pos_imp_zdiv_nonneg_iff)
    then show "late_us deadline (sec, nsec)" by (simp add: late_us_def)
  qed
qed

lemma hw_configure_returns:
  assumes "clock_diverges (world_env w)"
  shows "returns (hw_configure hw wd ht w)"
proof -
  obtain t w1 where c: "now_us w = (t, w1)" by force
  obtain b w4 where d: "dims_clamped hw wd ht (uio_wr (hw_regs hw) OJLS_REG_HEIGHT (ucast ht)
      (uio_wr (hw_regs hw) OJLS_REG_WIDTH (ucast wd) w1)) = (b, w4)" by force
  have "world_env w4 = world_env w"
    using d now_us_log [OF c] by (auto simp: dims_clamped_def log_simps Let_def split: if_splits)
  with assms have "returns (c_loop (busy_body hw (t + 100000)) () (uio_wr (hw_regs hw) OJLS_REG_CTRL OJLS_CTRL_APPLY w4))"
    by (intro busy.loop_returns) (simp_all add: log_simps)
  then show ?thesis by (simp add: hw_configure_def c d)
qed

lemma hw_recover_returns:
  assumes "clock_diverges (world_env w)"
  shows "returns (hw_recover hw wd ht w)"
proof -
  have "returns (hw_configure hw wd ht u)" if "axidma_reset (hw_dma hw) w = Some (rr, u)" for rr u
    using emits_env [OF axidma_reset_after [OF that emits_refl]] assms by (intro hw_configure_returns) simp
  then show ?thesis
    using hw_ops_return(1) [OF assms] by (auto simp: hw_recover_def)
qed

text \<open>After a successful configuration the core holds the dimensions and is not busy.\<close>

lemma busy_done:
  assumes "busy_body hw dl s w = Some (Inr 0, w')"
  shows "\<exists>st. hist w' = EvRegRead (reg_addr (hw_regs hw) OJLS_REG_STATUS) st # hist w \<and> st AND OJLS_STATUS_BUSY = 0"
  using assms by (auto simp: busy_body_def log_simps Let_def split: prod.splits if_splits)

lemma hw_configure_done:
  assumes "hw_configure hw width height w = Some (0, w')"
  shows "\<exists>st es s n. hist w' = EvRegRead (reg_addr (hw_regs hw) OJLS_REG_STATUS) st # es @ dims_events hw width height @ EvClock s n # hist w
    \<and> st AND OJLS_STATUS_BUSY = 0"
  using assms
proof (cases rule: hw_configure_cases)
  case (2 dl u)
  have "emits (hw_event 0) u w' \<and> (\<exists>st h. hist w' = EvRegRead (reg_addr (hw_regs hw) OJLS_REG_STATUS) st # h \<and>
      (\<exists>es. h = es @ hist u) \<and> st AND OJLS_STATUS_BUSY = 0)"
  proof (rule c_loop_inv [OF 2(1), where I = "\<lambda>_ v. emits (hw_event 0) u v" and Q = "\<lambda>a v. a = 0 \<longrightarrow> emits (hw_event 0) u v \<and>
      (\<exists>st h. hist v = EvRegRead (reg_addr (hw_regs hw) OJLS_REG_STATUS) st # h \<and> (\<exists>es. h = es @ hist u) \<and>
         st AND OJLS_STATUS_BUSY = 0)", THEN mp])
    fix s v s1 v1
    assume "emits (hw_event 0) u v" and "busy_body hw dl s v = Some (Inl s1, v1)"
    then show "emits (hw_event 0) u v1" by (rule busy_body_after [rotated])
  next
    fix s v a v1
    assume e: "emits (hw_event 0) u v" and b: "busy_body hw dl s v = Some (Inr a, v1)"
    show "a = 0 \<longrightarrow> emits (hw_event 0) u v1 \<and>
      (\<exists>st h. hist v1 = EvRegRead (reg_addr (hw_regs hw) OJLS_REG_STATUS) st # h \<and> (\<exists>es. h = es @ hist u) \<and>
         st AND OJLS_STATUS_BUSY = 0)"
      using e busy_body_after [OF b e] b busy_done [of hw dl s v v1] by (auto simp: emits_def)
  qed simp_all
  with 2(3) show ?thesis by auto
qed simp

section \<open>The ready gate\<close>

text \<open>
  The gate is open in a cycle when a 16-bit draw is below the threshold: \<open>thresh\<close> of 65536
  draws. A percentage of 100 opens it for every draw.
\<close>

lemma gate_thresh_unat:
  assumes "pct \<le> 100"
  shows "unat (gate_thresh pct) = unat pct * 65536 div 100"
proof -
  from assms have "unat pct * 65536 < 2 ^ 32" by (simp add: word_le_nat_alt)
  then show ?thesis by (simp add: gate_thresh_def unat_div unat_word_ariths)
qed


section \<open>What is opened and closed\<close>

text \<open>\<open>mmap(2)\<close> without \<open>MAP_FIXED\<close> never places a mapping at address 0.\<close>

definition mmap_nonnull :: "env \<Rightarrow> bool" where
  "mmap_nonnull E \<longleftrightarrow> (\<forall>h fd n. env_mmap E h fd n \<noteq> null_ptr)"

lemma sysfs_read_line_env: "sysfs_read_line path n w = (r, w') \<Longrightarrow> world_env w' = world_env w"
  by (auto simp: sysfs_read_line_def sys_defs Let_def split: if_splits option.splits)

lemma uio_find_loop_env: "uio_find_loop name n m ents out w = (r, w') \<Longrightarrow> world_env w' = world_env w"
proof (induction ents arbitrary: out w)
  case (Cons ent ents)
  obtain dev sysname where out: "out = (dev, sysname)" by force
  obtain rc attr w1 where l: "sysfs_read_line (snprintf_buf 300 (''/sys/class/uio/'' @ ent @ ''/name'')) 128 w
      = ((rc, attr), w1)" by (metis prod.exhaust)
  show ?case
    using Cons.prems Cons.IH sysfs_read_line_env [OF l] unfolding out uio_find_loop.simps Let_def l case_prod_conv
    by (auto split: if_splits)
qed simp

lemma uio_open_env:
  assumes "uio_open name w = ((rc, u), w')"
  shows "world_env w' = world_env w \<and> (rc = 0 \<longrightarrow> mmap_nonnull (world_env w) \<longrightarrow> u_regs u \<noteq> null_ptr)"
proof -
  obtain rc1 dev nm w1 where f: "(if take 5 name = ''/dev/''
      then ((0, snprintf_buf 64 name, snprintf_buf 64 (drop 5 name)), w)
      else uio_find name 64 64 w) = ((rc1, dev, nm), w1)" by (metis prod.exhaust)
  then have 1: "world_env w1 = world_env w"
    by (auto simp: uio_find_def sys_listdir_def Let_def split: if_splits option.splits dest: uio_find_loop_env)
  obtain rc2 attr w2 where l: "sysfs_read_line (snprintf_buf 300
      (''/sys/class/uio/'' @ drop 5 dev @ ''/maps/map0/size'')) 64 w1 = ((rc2, attr), w2)"
    by (metis prod.exhaust)
  with 1 have 2: "world_env w2 = world_env w" by (auto dest: sysfs_read_line_env)
  show ?thesis
    using assms 1 2 unfolding uio_open_def Let_def f case_prod_conv l
    by (auto simp: uio_zero_def sys_open_def sys_mmap_def sys_close_def Let_def mmap_nonnull_def
        split: if_splits)
qed

lemma udmabuf_open_env:
  assumes "udmabuf_open name w = ((rc, b), w')"
  shows "world_env w' = world_env w \<and> (rc = 0 \<longrightarrow> mmap_nonnull (world_env w) \<longrightarrow> b_mem b \<noteq> null_ptr)"
proof -
  obtain rc1 attr1 w1 where 1: "sysfs_read_line (attr_path name ''phys_addr'') 64 w = ((rc1, attr1), w1)"
    by (metis prod.exhaust)
  obtain rc2 attr2 w2 where 2: "sysfs_read_line (attr_path name ''size'') 64 w1 = ((rc2, attr2), w2)"
    by (metis prod.exhaust)
  show ?thesis
    using assms 1 2 sysfs_read_line_env [OF 1] sysfs_read_line_env [OF 2]
    by (auto simp: udmabuf_open_def udmabuf_sysfs_read_line_eq udmabuf_zero_def Let_def
        sys_open_def sys_mmap_def sys_close_def mmap_nonnull_def split: if_splits)
qed

lemma hw_event_fds: "hw_event k e \<Longrightarrow> open_fds (e # h) = open_fds h \<and> mappings (e # h) = mappings h"
  by (cases e) auto

lemma hw_emits_fds:
  "emits (hw_event k) w w' \<Longrightarrow> open_fds (hist w') = open_fds (hist w) \<and> mappings (hist w') = mappings (hist w)"
proof -
  have "list_all (hw_event k) es \<Longrightarrow> open_fds (es @ h) = open_fds h \<and> mappings (es @ h) = mappings h" for es h
    by (induction es) (auto simp: hw_event_fds)
  then show "emits (hw_event k) w w' \<Longrightarrow> open_fds (hist w') = open_fds (hist w) \<and> mappings (hist w') = mappings (hist w)"
    by (auto simp: emits_def)
qed

text \<open>
  A device is open: it has a descriptor and a real mapping. Opening the DMA either gives such
  a device or gives everything back.
\<close>

definition uio_up :: "uio \<Rightarrow> bool" where
  "uio_up u \<longleftrightarrow> 0 \<le> u_fd u \<and> u_regs u \<noteq> null_ptr \<and> u_regs u \<noteq> map_failed"

definition buf_up :: "udmabuf \<Rightarrow> bool" where
  "buf_up b \<longleftrightarrow> 0 \<le> b_fd b \<and> b_mem b \<noteq> null_ptr \<and> b_mem b \<noteq> map_failed"

definition holds_more :: "int multiset \<Rightarrow> (addr \<times> size_t) multiset \<Rightarrow> world \<Rightarrow> world \<Rightarrow> bool" where
  "holds_more fds maps w w' \<longleftrightarrow>
     world_env w' = world_env w \<and> open_fds (hist w') = fds + open_fds (hist w) \<and>
     mappings (hist w') = maps + mappings (hist w)"

lemma holds_more_refl: "holds_more {#} {#} w w"
  by (simp add: holds_more_def)

lemma holds_more_trans:
  "holds_more f1 m1 w w1 \<Longrightarrow> holds_more f2 m2 w1 w2 \<Longrightarrow> holds_more (f2 + f1) (m2 + m1) w w2"
  by (simp add: holds_more_def add.assoc)

lemma uio_open_up:
  "uio_open name w = ((0, u), w') \<Longrightarrow> mmap_nonnull (world_env w) \<Longrightarrow>
     uio_up u \<and> holds_more {#u_fd u#} {#(u_regs u, u_map_size u)#} w w'"
  using uio_open_resources [of name w 0 u w'] uio_open_env [of name w 0 u w']
  by (simp add: uio_up_def holds_more_def)

lemma udmabuf_open_up:
  "udmabuf_open name w = ((0, b), w') \<Longrightarrow> mmap_nonnull (world_env w) \<Longrightarrow>
     buf_up b \<and> holds_more {#b_fd b#} {#(b_mem b, b_size b)#} w w'"
  using udmabuf_open_resources [of name w 0 b w'] udmabuf_open_env [of name w 0 b w']
  by (simp add: buf_up_def holds_more_def)

lemma axidma_open_up:
  assumes "axidma_open name w = Some ((rc, d), w')" and mm: "mmap_nonnull (world_env w)"
  shows "if rc = 0
      then uio_up (dma_uio d) \<and> holds_more {#u_fd (dma_uio d)#} {#(u_regs (dma_uio d), u_map_size (dma_uio d))#} w w'
      else rc = -1 \<and> holds_more {#} {#} w w'"
proof -
  obtain rc1 u w1 where o: "uio_open name w = ((rc1, u), w1)" by (metis prod.exhaust)
  show ?thesis
  proof (cases "rc1 = 0")
    case False
    with assms o uio_open_resources [OF o] uio_open_env [OF o] show ?thesis
      by (auto simp: axidma_open_def holds_more_def same_resources_def)
  next
    case True
    with o mm have up: "uio_up u" "holds_more {#u_fd u#} {#(u_regs u, u_map_size u)#} w w1"
      using uio_open_up by auto
    from assms o True obtain rr w2 where r: "axidma_reset \<lparr>dma_uio = u\<rparr> w1 = Some (rr, w2)"
      by (auto simp: axidma_open_def split: Option.bind_splits)
    have e: "emits (hw_event 0) w1 w2" using axidma_reset_after [OF r emits_refl] .
    with up(2) have h: "holds_more {#u_fd u#} {#(u_regs u, u_map_size u)#} w w2"
      using hw_emits_fds [OF e] emits_env [OF e] by (simp add: holds_more_def)
    show ?thesis
    proof (cases "rr = 0")
      case True
      obtain r3 u3 w3 where en: "uio_irq_enable u w2 = ((r3, u3), w3)" by (metis prod.exhaust)
      from uio_irq_enable_emits [OF en] have e3: "emits (hw_event (u_fd u)) w2 w3"
        by (rule emits_mono) (rule on_fd_hw)
      have "u_fd u3 = u_fd u" "u_regs u3 = u_regs u" "u_map_size u3 = u_map_size u"
        using en by (auto simp: uio_irq_enable_def Let_def split: if_splits prod.splits)
      with assms(1) o \<open>rc1 = 0\<close> r True en up(1) h hw_emits_fds [OF e3] emits_env [OF e3] show ?thesis
        by (auto simp: axidma_open_def holds_more_def uio_up_def)
    next
      case False
      obtain u3 w3 where cl: "uio_close u w2 = (u3, w3)" by force
      have "world_env w3 = world_env w2"
        using cl by (auto simp: uio_close_def Let_def sys_close_def sys_munmap_def)
      with uio_close_resources [OF cl] up(1) h have "holds_more {#} {#} w w3"
        by (simp add: uio_up_def holds_more_def)
      with assms(1) o \<open>rc1 = 0\<close> r False cl show ?thesis
        by (auto simp: axidma_open_def)
    qed
  qed
qed

text \<open>The whole hardware: six descriptors, six mappings.\<close>

definition hw_fds :: "hw \<Rightarrow> int multiset" where
  "hw_fds hw = {#u_fd (hw_regs hw), u_fd (hw_gate hw), u_fd (dma_uio (hw_dma hw)),
     b_fd (hw_tx_buf hw), b_fd (hw_rx_buf hw), b_fd (hw_desc_buf hw)#}"

definition uio_map :: "uio \<Rightarrow> addr \<times> size_t" where
  "uio_map u = (u_regs u, u_map_size u)"

definition buf_map :: "udmabuf \<Rightarrow> addr \<times> size_t" where
  "buf_map b = (b_mem b, b_size b)"

definition hw_maps :: "hw \<Rightarrow> (addr \<times> size_t) multiset" where
  "hw_maps hw = {#uio_map (hw_regs hw), uio_map (hw_gate hw), uio_map (dma_uio (hw_dma hw)),
     buf_map (hw_tx_buf hw), buf_map (hw_rx_buf hw), buf_map (hw_desc_buf hw)#}"

definition hw_up :: "hw \<Rightarrow> bool" where
  "hw_up hw \<longleftrightarrow> uio_up (hw_regs hw) \<and> uio_up (hw_gate hw) \<and> uio_up (dma_uio (hw_dma hw)) \<and>
     buf_up (hw_tx_buf hw) \<and> buf_up (hw_rx_buf hw) \<and> buf_up (hw_desc_buf hw)"

text \<open>The regions of an opened hardware are its whole tx and rx buffers.\<close>

definition regions_ok :: "hw \<Rightarrow> bool" where
  "regions_ok hw \<longleftrightarrow>
     hw_tx hw = \<lparr>rg_b = hw_tx_buf hw, rg_off = 0, rg_size = b_size (hw_tx_buf hw)\<rparr> \<and>
     hw_rx hw = \<lparr>rg_b = hw_rx_buf hw, rg_off = 0, rg_size = b_size (hw_rx_buf hw)\<rparr>"

lemma hw_open_bufs_up:
  assumes "hw_open_bufs opt hw0 w = Some ((0, hw), w')" and mm: "mmap_nonnull (world_env w)"
  shows "buf_up (hw_tx_buf hw) \<and> buf_up (hw_rx_buf hw) \<and> buf_up (hw_desc_buf hw) \<and> regions_ok hw \<and>
    hw_regs hw = hw_regs hw0 \<and> hw_gate hw = hw_gate hw0 \<and> hw_dma hw = hw_dma hw0 \<and>
    hw_bitness hw = hw_bitness hw0 \<and> hw_max_width hw = hw_max_width hw0 \<and> hw_max_height hw = hw_max_height hw0 \<and>
    holds_more {#b_fd (hw_tx_buf hw), b_fd (hw_rx_buf hw), b_fd (hw_desc_buf hw)#}
      {#buf_map (hw_tx_buf hw), buf_map (hw_rx_buf hw), buf_map (hw_desc_buf hw)#} w w'"
proof -
  obtain rc1 tx w1 where 1: "udmabuf_open (case opt_tx_buf opt of Some n \<Rightarrow> n | None \<Rightarrow> ''udmabuf-ojls-tx'') w = ((rc1, tx), w1)"
    by (metis prod.exhaust)
  obtain rc2 rx w2 where 2: "udmabuf_open (case opt_rx_buf opt of Some n \<Rightarrow> n | None \<Rightarrow> ''udmabuf-ojls-rx'') w1 = ((rc2, rx), w2)"
    by (metis prod.exhaust)
  obtain rc3 ds w3 where 3: "udmabuf_open (case opt_desc_buf opt of Some n \<Rightarrow> n | None \<Rightarrow> ''udmabuf-ojls-desc'') w2 = ((rc3, ds), w3)"
    by (metis prod.exhaust)
  have rc: "rc1 = 0" "rc2 = 0" "rc3 = 0"
    and hw: "hw = hw0\<lparr>hw_tx_buf := tx, hw_rx_buf := rx, hw_desc_buf := ds,
        hw_tx := \<lparr>rg_b = tx, rg_off = 0, rg_size = b_size tx\<rparr>, hw_rx := \<lparr>rg_b = rx, rg_off = 0, rg_size = b_size rx\<rparr>\<rparr>"
    and w': "w' = w3"
    using assms(1) unfolding hw_open_bufs_def Let_def 1 case_prod_conv 2 3
    by (simp_all split: if_splits)
  have b1: "buf_up tx" "holds_more {#b_fd tx#} {#(b_mem tx, b_size tx)#} w w1"
    using udmabuf_open_up 1 rc mm by auto
  then have mm1: "mmap_nonnull (world_env w1)" using mm by (simp add: holds_more_def)
  have b2: "buf_up rx" "holds_more {#b_fd rx#} {#(b_mem rx, b_size rx)#} w1 w2"
    using udmabuf_open_up 2 rc mm1 by auto
  then have "mmap_nonnull (world_env w2)" using mm1 by (simp add: holds_more_def)
  then have b3: "buf_up ds" "holds_more {#b_fd ds#} {#(b_mem ds, b_size ds)#} w2 w3"
    using udmabuf_open_up 3 rc by auto
  from holds_more_trans [OF holds_more_trans [OF b1(2) b2(2)] b3(2)]
  show ?thesis
    using b1 b2 b3 by (simp add: hw w' regions_ok_def buf_map_def holds_more_def add_mset_commute)
qed

lemma uio_rd_holds: "uio_rd u off w = (v, w') \<Longrightarrow> holds_more {#} {#} w w'"
  by (auto simp: log_simps Let_def holds_more_def)

lemma hw_open_up:
  assumes "hw_open opt w = Some ((0, hw), w')" and mm: "mmap_nonnull (world_env w)"
  shows "hw_up hw \<and> regions_ok hw \<and> holds_more (hw_fds hw) (hw_maps hw) w w'
    \<and> unat (hw_bitness hw) < 256 \<and> unat (hw_max_width hw) < 65536 \<and> unat (hw_max_height hw) < 65536"
proof -
  obtain rc1 regs w1 where 1: "uio_open (opt_regs_name opt) w = ((rc1, regs), w1)" by (metis prod.exhaust)
  obtain v2 w2 where 2: "uio_rd regs OJLS_REG_ID w1 = (v2, w2)" by force
  obtain v3 w3 where 3: "uio_rd regs OJLS_REG_VERSION w2 = (v3, w3)" by force
  obtain v4 w4 where 4: "uio_rd regs OJLS_REG_CAPS w3 = (v4, w4)" by force
  obtain v5 w5 where 5: "uio_rd regs OJLS_REG_MAXDIM w4 = (v5, w5)" by force
  obtain rc6 gate w6 where 6: "uio_open (opt_gate_name opt) w5 = ((rc6, gate), w6)" by (metis prod.exhaust)
  define hw3 where "hw3 = hw_zero\<lparr>hw_regs := regs, hw_bitness := OJLS_CAPS_BITNESS v4,
     hw_max_width := OJLS_MAXDIM_WIDTH v5, hw_max_height := OJLS_MAXDIM_HEIGHT v5, hw_gate := gate\<rparr>"
  have rc: "rc1 = 0" "rc6 = 0" and "\<exists>rc3 dma w7. axidma_open (opt_dma_name opt) w6 = Some ((rc3, dma), w7) \<and>
      rc3 = 0 \<and> hw_open_bufs opt (hw3\<lparr>hw_dma := dma\<rparr>) w7 = Some ((0, hw), w')"
    using assms(1) unfolding hw_open_def Let_def 1 case_prod_conv 2 3 4 5 6 hw3_def
    by (auto split: if_splits Option.bind_splits)
  then obtain dma w7 where 7: "axidma_open (opt_dma_name opt) w6 = Some ((0, dma), w7)"
    and 8: "hw_open_bufs opt (hw3\<lparr>hw_dma := dma\<rparr>) w7 = Some ((0, hw), w')" by auto
  have h1: "uio_up regs" "holds_more {#u_fd regs#} {#uio_map regs#} w w1"
    using uio_open_up 1 rc mm by (auto simp: uio_map_def)
  have r: "holds_more {#} {#} w1 w5"
    using uio_rd_holds [OF 2] uio_rd_holds [OF 3] uio_rd_holds [OF 4] uio_rd_holds [OF 5] by (simp add: holds_more_def)
  then have mm5: "mmap_nonnull (world_env w5)" using h1(2) mm by (simp add: holds_more_def)
  have h6: "uio_up gate" "holds_more {#u_fd gate#} {#uio_map gate#} w5 w6"
    using uio_open_up 6 rc mm5 by (auto simp: uio_map_def)
  then have mm6: "mmap_nonnull (world_env w6)" using mm5 by (simp add: holds_more_def)
  have h7: "uio_up (dma_uio dma)" "holds_more {#u_fd (dma_uio dma)#} {#uio_map (dma_uio dma)#} w6 w7"
    using axidma_open_up [OF 7 mm6] by (auto simp: uio_map_def)
  then have mm7: "mmap_nonnull (world_env w7)" using mm6 by (simp add: holds_more_def)
  note h8 = hw_open_bufs_up [OF 8 mm7]
  have dims: "unat (OJLS_CAPS_BITNESS v4) < 256" "unat (OJLS_MAXDIM_WIDTH v5) < 65536" "unat (OJLS_MAXDIM_HEIGHT v5) < 65536"
  proof -
    have m: "unat (x AND mask n) < 2 ^ n" if "n < 32" for x :: u32 and n
      using that by (simp add: take_bit_eq_mask [symmetric] unsigned_take_bit_eq)
    from m [of 8 v4] m [of 16 v5] m [of 16 "drop_bit 16 v5"]
    show "unat (OJLS_CAPS_BITNESS v4) < 256" "unat (OJLS_MAXDIM_WIDTH v5) < 65536" "unat (OJLS_MAXDIM_HEIGHT v5) < 65536"
      by (simp_all add: OJLS_CAPS_BITNESS_def OJLS_MAXDIM_WIDTH_def OJLS_MAXDIM_HEIGHT_def mask_eq_exp_minus_1)
  qed
  show ?thesis
    using h1 r h6 h7 h8 dims
    by (simp add: hw_up_def hw_fds_def hw_maps_def holds_more_def hw3_def add_mset_commute)
qed

lemma hw_close_down:
  assumes "hw_close hw w = (hw', w')" and "hw_up hw"
  shows "open_fds (hist w') = open_fds (hist w) - hw_fds hw" "mappings (hist w') = mappings (hist w) - hw_maps hw"
proof -
  obtain ds w1 where 1: "udmabuf_close (hw_desc_buf hw) w = (ds, w1)" by force
  obtain rx w2 where 2: "udmabuf_close (hw_rx_buf hw) w1 = (rx, w2)" by force
  obtain tx w3 where 3: "udmabuf_close (hw_tx_buf hw) w2 = (tx, w3)" by force
  obtain dm w4 where 4: "uio_close (dma_uio (hw_dma hw)) w3 = (dm, w4)" by force
  obtain ga w5 where 5: "uio_close (hw_gate hw) w4 = (ga, w5)" by force
  obtain re w6 where 6: "uio_close (hw_regs hw) w5 = (re, w6)" by force
  from assms(1) 1 2 3 4 5 6 have "w' = w6" by (simp add: hw_close_def axidma_close_def)
  with udmabuf_close_resources [OF 1] udmabuf_close_resources [OF 2] udmabuf_close_resources [OF 3]
    uio_close_resources [OF 4] uio_close_resources [OF 5] uio_close_resources [OF 6] assms(2)
  show "open_fds (hist w') = open_fds (hist w) - hw_fds hw" "mappings (hist w') = mappings (hist w) - hw_maps hw"
    by (simp_all add: hw_up_def uio_up_def buf_up_def hw_fds_def hw_maps_def uio_map_def buf_map_def
        add_mset_commute diff_diff_add_mset)
qed

end
