(* ===== verification/OJLS_Encode.thy ===== *)
theory OJLS_Encode
  imports OJLS_Hw
begin

text \<open>
  The request handlers of \<open>ojls_server.c\<close>: the error reply, the encoding of one image, the
  encoding of a stream of images, and the loopback reply.
\<close>

unbundle bit_operations_syntax

section \<open>The error reply\<close>

definition error_hdr :: "ojls_hdr \<Rightarrow> u8 \<Rightarrow> ojls_hdr" where
  "error_hdr req status =
     req\<lparr>h_magic := OJLS_PROTO_MAGIC, h_version := OJLS_PROTO_VERSION, h_type := OJLS_MSG_ENCODE_RESP,
         h_status := status, h_payload_len := 0\<rparr>"

definition send_error :: "int \<Rightarrow> ojls_hdr \<Rightarrow> u8 \<Rightarrow> int io" where
  "send_error fd req status = send_full fd (Local (hdr_bytes (error_hdr req status))) OJLS_PROTO_HDR_LEN"

section \<open>One image\<close>

definition encode_resp :: "ojls_hdr \<Rightarrow> u32 \<Rightarrow> ojls_hdr" where
  "encode_resp req out_bytes =
     \<lparr>h_magic = OJLS_PROTO_MAGIC, h_version = OJLS_PROTO_VERSION, h_type = OJLS_MSG_ENCODE_RESP,
      h_status = OJLS_ST_OK, h_width = h_width req, h_height = h_height req,
      h_bitness = h_bitness req, h_ready_pct = 0, h_payload_len = out_bytes\<rparr>"

text \<open>
  The result of a handler: 0 once replied, a status code for the caller to send, -1 on a
  socket error. A status code is an \<open>int\<close> here, as in the code.
\<close>

definition st_int :: "u8 \<Rightarrow> int" where
  "st_int st = uint st"

text \<open>The two rings of a transfer, in the two halves of the descriptor buffer.\<close>

definition build_rings ::
  "hw \<Rightarrow> u64 \<Rightarrow> u32 \<Rightarrow> u32 \<Rightarrow> world \<Rightarrow> (axidma_ring \<times> axidma_ring) option \<times> world" where
  "build_rings hw rx_len rx_chunk in_bytes w =
     (let desc_half = b_size (hw_desc_buf hw) div 2;
          (s2mm, w1) = axidma_ring_build (hw_desc_buf hw) 0 desc_half (region_phys (hw_rx hw))
                         rx_len rx_chunk False w
      in case s2mm of
           None \<Rightarrow> (None, w1)
         | Some s2mm \<Rightarrow>
             (let (mm2s, w2) = axidma_ring_build (hw_desc_buf hw) desc_half
                                 (b_size (hw_desc_buf hw) - desc_half) (region_phys (hw_tx hw))
                                 (ucast in_bytes) AXIDMA_DESC_CHUNK True w1
              in case mm2s of None \<Rightarrow> (None, w2) | Some mm2s \<Rightarrow> (Some (s2mm, mm2s), w2)))"

text \<open>The transfer is over and \<open>s2mm\<close> holds the image: fetch it and reply.\<close>

definition encode_reply :: "int \<Rightarrow> hw \<Rightarrow> ojls_hdr \<Rightarrow> axidma_ring \<Rightarrow> int io" where
  "encode_reply fd hw req s2mm w =
     (let (_, w1) = now_us w;
          (out_bytes, w2) = axidma_ring_bytes s2mm w1;
          (sy, w3) = udmabuf_sync_for_cpu (rg_b (hw_rx hw)) (rg_off (hw_rx hw)) out_bytes w2
      in if sy \<noteq> 0 then Some (st_int OJLS_ST_HW_ERROR, w3)
         else do {
           (bad, w4) \<leftarrow> any_fails
             [send_full fd (Local (hdr_bytes (encode_resp req out_bytes))) OJLS_PROTO_HDR_LEN,
              send_full fd (Mem (region_mem (hw_rx hw))) (unat out_bytes)] w3;
           Some (if bad then -1 else 0, w4)
         })"

definition encode_and_reply :: "int \<Rightarrow> hw \<Rightarrow> ojls_hdr \<Rightarrow> int \<Rightarrow> int io" where
  "encode_and_reply fd hw req timeout_ms w = do {
     (bad1, w1) \<leftarrow> any_fails
       [hw_configure hw (h_width req) (h_height req), io_of (gate_set hw 100),
        io_of (udmabuf_sync_for_device (rg_b (hw_tx hw)) (rg_off (hw_tx hw)) (h_payload_len req)),
        axidma_reset (hw_dma hw)] w;
     if bad1 then Some (st_int OJLS_ST_HW_ERROR, w1)
     else
       (let (rings, w2) = build_rings hw (ucast (rg_size (hw_rx hw))) AXIDMA_DESC_CHUNK (h_payload_len req) w1
        in case rings of
             None \<Rightarrow> Some (st_int OJLS_ST_HW_ERROR, w2)
           | Some (s2mm, mm2s) \<Rightarrow>
               (let (sy, w3) = udmabuf_sync_for_device (hw_desc_buf hw) 0 (b_size (hw_desc_buf hw)) w2
                in if sy \<noteq> 0 then Some (st_int OJLS_ST_HW_ERROR, w3)
                   else do {
                     let (_, w4) = now_us w3;
                     (bad2, w5) \<leftarrow> any_fails
                       [io_of (axidma_sg_start (hw_dma hw) AXIDMA_S2MM s2mm),
                        io_of (axidma_sg_start (hw_dma hw) AXIDMA_MM2S mm2s)] w4;
                     if bad2 then Some (st_int OJLS_ST_HW_ERROR, w5)
                     else do {
                       (rc, w6) \<leftarrow> axidma_wait (hw_dma hw) AXIDMA_S2MM s2mm timeout_ms w5;
                       if rc \<noteq> 0 then do {
                         (_, w7) \<leftarrow> hw_recover hw (h_width req) (h_height req) w6;
                         Some (st_int (if rc = -2 then OJLS_ST_HW_TIMEOUT else OJLS_ST_HW_ERROR), w7)
                       }
                       else encode_reply fd hw req s2mm w6
                     }
                   }))
   }"

section \<open>A stream of images\<close>

definition stream_slot_bytes :: "u32 \<Rightarrow> size_t" where
  "stream_slot_bytes image_bytes =
     (let worst = ucast image_bytes + ucast (image_bytes div 4) + 4096 :: u64
      in ucast ((worst + 4095) AND NOT 4095))"

fun src_at :: "src \<Rightarrow> size_t \<Rightarrow> src" where
  "src_at (Local bs) off = Local (drop (unat off) bs)"
| "src_at (Mem p) off = Mem (p + off)"

definition stream_total :: "u32 list \<Rightarrow> u32 \<Rightarrow> u32" where
  "stream_total lens cnt = foldl (+) (cnt * 4) (take (unat cnt) lens)"

definition stream_resp :: "ojls_hdr \<Rightarrow> u8 \<Rightarrow> u32 \<Rightarrow> ojls_hdr" where
  "stream_resp req status tot =
     req\<lparr>h_type := OJLS_MSG_STREAM_RESP, h_status := status, h_payload_len := tot\<rparr>"

definition send_len :: "int \<Rightarrow> u32 list \<Rightarrow> nat \<Rightarrow> int io" where
  "send_len fd lens i = send_full fd (Local (u32_bytes (lens ! i))) 4"

definition send_image :: "int \<Rightarrow> src \<Rightarrow> size_t \<Rightarrow> u32 list \<Rightarrow> nat \<Rightarrow> int io" where
  "send_image fd base slot lens i =
     send_full fd (src_at base (of_nat i * slot)) (unat (lens ! i))"

definition stream_send :: "int \<Rightarrow> ojls_hdr \<Rightarrow> u8 \<Rightarrow> src \<Rightarrow> size_t \<Rightarrow> u32 list \<Rightarrow> u32 \<Rightarrow> int io" where
  "stream_send fd req status base slot lens cnt w = do {
     (bad, w1) \<leftarrow> any_fails
       (send_full fd (Local (hdr_bytes (stream_resp req status (stream_total lens cnt)))) OJLS_PROTO_HDR_LEN
        # map (send_len fd lens) [0..<unat cnt]
        @ map (send_image fd base slot lens) [0..<unat cnt]) w;
     Some (if bad then -1 else 0, w1)
   }"

text \<open>
  The lengths of the images that closed, up to the first that did not; the rest of the
  zeroed array stays zero.
\<close>

fun closed_lens :: "axidma_ring \<Rightarrow> nat \<Rightarrow> nat \<Rightarrow> world \<Rightarrow> u32 list \<times> world" where
  "closed_lens ring 0 i w = ([], w)"
| "closed_lens ring (Suc k) i w =
     (let (st, w1) = mem_load (status_addr ring i) w
      in if st AND AXIDMA_DESC_EOF = 0 then (replicate (Suc k) 0, w1)
         else (let (ls, w2) = closed_lens ring k (Suc i) w1
               in ((st AND AXIDMA_DESC_LEN_MASK) # ls, w2)))"

text \<open>The stream ran (with result \<open>rc\<close> of the wait): collect the lengths and reply.\<close>

definition stream_reply ::
  "int \<Rightarrow> hw \<Rightarrow> ojls_hdr \<Rightarrow> u32 \<Rightarrow> size_t \<Rightarrow> axidma_ring \<Rightarrow> u8 \<Rightarrow> int io" where
  "stream_reply fd hw req cnt slot s2mm status w = do {
     (bad, w1) \<leftarrow> any_fails
       [io_of (udmabuf_sync_for_cpu (hw_desc_buf hw) 0 (cnt * of_nat desc_size)),
        io_of (udmabuf_sync_for_cpu (rg_b (hw_rx hw)) (rg_off (hw_rx hw)) (slot * cnt))] w;
     if bad then Some (st_int OJLS_ST_HW_ERROR, sys_free w1)
     else do {
       let (lens, w2) = closed_lens s2mm (unat cnt) 0 w1;
       (rc, w3) \<leftarrow> stream_send fd req status (Mem (region_mem (hw_rx hw))) slot lens cnt w2;
       Some (if rc \<noteq> 0 then -1 else 0, sys_free w3)
     }
   }"

definition stream_and_reply :: "int \<Rightarrow> hw \<Rightarrow> ojls_hdr \<Rightarrow> u32 \<Rightarrow> int \<Rightarrow> int io" where
  "stream_and_reply fd hw req cnt timeout_ms w =
     (let image_bytes = h_payload_len req div cnt;
          slot = stream_slot_bytes image_bytes
      in do {
        (bad1, w1) \<leftarrow> any_fails
          [hw_configure hw (h_width req) (h_height req),
           io_of (gate_set hw (if h_ready_pct req \<noteq> 0 then ucast (h_ready_pct req) else 100)),
           io_of (udmabuf_sync_for_device (rg_b (hw_tx hw)) (rg_off (hw_tx hw)) (h_payload_len req)),
           axidma_reset (hw_dma hw)] w;
        if bad1 then Some (st_int OJLS_ST_HW_ERROR, w1)
        else
          (let (rings, w2) = build_rings hw (ucast slot * ucast cnt) slot (h_payload_len req) w1
           in case rings of
                None \<Rightarrow> Some (st_int OJLS_ST_HW_ERROR, w2)
              | Some (s2mm, mm2s) \<Rightarrow>
                  (let (sy, w3) = udmabuf_sync_for_device (hw_desc_buf hw) 0 (b_size (hw_desc_buf hw)) w2
                   in if sy \<noteq> 0 then Some (st_int OJLS_ST_HW_ERROR, w3)
                      else
                        (let (ok, w4) = sys_calloc cnt 4 w3
                         in if \<not> ok then Some (st_int OJLS_ST_HW_ERROR, w4)
                            else do {
                              let (_, w5) = now_us w4;
                              (bad2, w6) \<leftarrow> any_fails
                                [io_of (axidma_sg_start (hw_dma hw) AXIDMA_S2MM s2mm),
                                 io_of (axidma_sg_start (hw_dma hw) AXIDMA_MM2S mm2s)] w5;
                              if bad2 then Some (st_int OJLS_ST_HW_ERROR, sys_free w6)
                              else do {
                                (rc, w7) \<leftarrow> axidma_wait_packets (hw_dma hw) s2mm timeout_ms w6;
                                let (_, w8) = now_us w7;
                                if rc \<noteq> 0 then do {
                                  (_, w9) \<leftarrow> hw_recover hw (h_width req) (h_height req) w8;
                                  stream_reply fd hw req cnt slot s2mm
                                    (if rc = -2 then OJLS_ST_HW_TIMEOUT else OJLS_ST_HW_ERROR) w9
                                }
                                else stream_reply fd hw req cnt slot s2mm OJLS_ST_OK w8
                              }
                            })))
      })"

section \<open>Loopback\<close>

definition image_bytes_of :: "ojls_hdr \<Rightarrow> u32" where
  "image_bytes_of req = ucast (h_width req) * ucast (h_height req) * ojls_bytes_per_pixel (h_bitness req)"

definition loopback_reply :: "int \<Rightarrow> ojls_hdr \<Rightarrow> src \<Rightarrow> int io" where
  "loopback_reply fd req payload w =
     (if h_type req = OJLS_MSG_STREAM_REQ then
        (let sz = image_bytes_of req;
             cnt = h_payload_len req div sz;
             (ok, w1) = sys_malloc (unat (cnt * 4)) w
         in if \<not> ok then Some (-1, w1)
            else do {
              (rc, w2) \<leftarrow> stream_send fd req OJLS_ST_OK payload sz (replicate (unat cnt) sz) cnt w1;
              Some (rc, sys_free w2)
            })
      else do {
        (bad, w1) \<leftarrow> any_fails
          [send_full fd (Local (hdr_bytes (req\<lparr>h_type := OJLS_MSG_ENCODE_RESP, h_status := OJLS_ST_OK\<rparr>)))
             OJLS_PROTO_HDR_LEN,
           send_full fd payload (unat (h_payload_len req))] w;
        Some (if bad then -1 else 0, w1)
      })"

section \<open>Messages\<close>

text \<open>
  \<open>sends fd M m\<close>: the operation only writes to the connection, what it writes is the beginning
  of a message of \<open>M\<close>, and all of it when it reports 0. \<open>cat_msgs\<close> is the concatenation of
  messages.
\<close>

definition sends :: "int \<Rightarrow> (u8 list \<Rightarrow> bool) \<Rightarrow> int io \<Rightarrow> bool" where
  "sends fd M m \<longleftrightarrow>
     (\<forall>w rc w'. m w = Some (rc, w') \<longrightarrow> emits (is_write fd) w w' \<and>
        (\<exists>bs more. sent fd w' = sent fd w @ bs \<and> M (bs @ more) \<and> (rc = 0 \<longrightarrow> more = [])))"

fun cat_msgs :: "(u8 list \<Rightarrow> bool) list \<Rightarrow> u8 list \<Rightarrow> bool" where
  "cat_msgs [] bs \<longleftrightarrow> bs = []"
| "cat_msgs (M # Ms) bs \<longleftrightarrow> (\<exists>a b. bs = a @ b \<and> M a \<and> cat_msgs Ms b)"

definition is_msg :: "u8 list \<Rightarrow> u8 list \<Rightarrow> bool" where
  "is_msg x bs \<longleftrightarrow> bs = x"

definition len_msg :: "nat \<Rightarrow> u8 list \<Rightarrow> bool" where
  "len_msg n bs \<longleftrightarrow> length bs = n"

lemma cat_msgs_inhabited: "\<forall>M\<in>set Ms. Ex M \<Longrightarrow> Ex (cat_msgs Ms)"
proof (induction Ms)
  case (Cons M Ms)
  then obtain a b where "M a" "cat_msgs Ms b" by auto
  then have "cat_msgs (M # Ms) (a @ b)" by auto
  then show ?case by blast
qed auto

lemma msg_inhabited [simp]: "Ex (is_msg x)" "Ex (len_msg n)"
  by (auto simp: is_msg_def len_msg_def intro: exI [of _ "replicate n 0"])

lemma cat_msgs_is: "cat_msgs (map is_msg xs) bs \<longleftrightarrow> bs = concat xs"
  by (induction xs arbitrary: bs) (auto simp: is_msg_def)

lemma cat_msgs_len:
  "cat_msgs (map len_msg ns) bs \<longleftrightarrow> (\<exists>xs. bs = concat xs \<and> map length xs = ns)"
proof (induction ns arbitrary: bs)
  case (Cons n ns)
  show ?case
  proof
    assume "cat_msgs (map len_msg (n # ns)) bs"
    then obtain a xs where "bs = a @ concat xs" "length a = n" "map length xs = ns"
      using Cons.IH by (auto simp: len_msg_def)
    then show "\<exists>xs. bs = concat xs \<and> map length xs = n # ns" by (intro exI [of _ "a # xs"]) simp
  next
    assume "\<exists>xs. bs = concat xs \<and> map length xs = n # ns"
    then obtain x xs where "bs = x @ concat xs" "length x = n" "map length xs = ns" by auto
    moreover from this have "cat_msgs (map len_msg ns) (concat xs)" using Cons.IH by blast
    ultimately show "cat_msgs (map len_msg (n # ns)) bs"
      by (auto simp: len_msg_def simp del: map_map)
  qed
qed simp

lemma cat_msgs_append: "cat_msgs (Ms @ Ns) bs \<longleftrightarrow> (\<exists>a b. bs = a @ b \<and> cat_msgs Ms a \<and> cat_msgs Ns b)"
proof (induction Ms arbitrary: bs)
  case (Cons M Ms)
  then show ?case by simp (metis append.assoc)
qed simp

lemma sends_any_fails:
  assumes "list_all2 (sends fd) Ms ms" and "\<forall>M\<in>set Ms. Ex M" and "any_fails ms w = Some (b, w')"
  shows "emits (is_write fd) w w' \<and>
    (\<exists>bs more. sent fd w' = sent fd w @ bs \<and> cat_msgs Ms (bs @ more) \<and> (\<not> b \<longrightarrow> more = []))"
  using assms
proof (induction Ms ms arbitrary: w rule: list_all2_induct)
  case (Cons M Ms m ms)
  from Cons.prems(2) obtain rc w1 where m: "m w = Some (rc, w1)"
    and r: "(if rc \<noteq> 0 then Some (True, w1) else any_fails ms w1) = Some (b, w')"
    by (auto split: Option.bind_splits)
  from Cons.hyps(1) m obtain bs more where s: "emits (is_write fd) w w1" "sent fd w1 = sent fd w @ bs"
    "M (bs @ more)" "rc = 0 \<longrightarrow> more = []" unfolding sends_def by blast
  show ?case
  proof (cases "rc = 0")
    case True
    with r have "any_fails ms w1 = Some (b, w')" by simp
    from Cons.IH [OF _ this] Cons.prems(1) obtain bs2 more2 where
      "emits (is_write fd) w1 w'" "sent fd w' = sent fd w1 @ bs2" "cat_msgs Ms (bs2 @ more2)"
      "\<not> b \<longrightarrow> more2 = []" by auto
    with s True have "emits (is_write fd) w w'" "sent fd w' = sent fd w @ (bs @ bs2)"
      "cat_msgs (M # Ms) ((bs @ bs2) @ more2)" "\<not> b \<longrightarrow> more2 = []" by (auto intro: emits_trans)
    then show ?thesis by blast
  next
    case False
    with r have "b" "w' = w1" by auto
    moreover obtain z where "cat_msgs Ms z" using cat_msgs_inhabited [of Ms] Cons.prems(1) by auto
    moreover from calculation s have "cat_msgs (M # Ms) (bs @ (more @ z))"
      by (auto intro: exI [of _ "bs @ more"])
    ultimately show ?thesis using s by blast
  qed
qed simp

text \<open>The senders of the server.\<close>

lemma sends_local: "sends fd (is_msg bs) (send_full fd (Local bs) (length bs))"
  unfolding sends_def is_msg_def
proof (intro allI impI conjI)
  fix w rc w'
  assume s: "send_full fd (Local bs) (length bs) w = Some (rc, w')"
  show "emits (is_write fd) w w'" using s by (rule srv.send_emits)
  obtain k where "k \<le> length bs" "sent fd w' = sent fd w @ take k bs" "rc = 0 \<longleftrightarrow> k = length bs"
    using srv.send_local [OF s] by blast
  then show "\<exists>xs more. sent fd w' = sent fd w @ xs \<and> xs @ more = bs \<and> (rc = 0 \<longrightarrow> more = [])"
    by (intro exI [of _ "take k bs"] exI [of _ "drop k bs"]) auto
qed

lemma sends_mem:
  assumes "src_fits buf n"
  shows "sends fd (len_msg n) (send_full fd buf n)"
  unfolding sends_def len_msg_def
proof (intro allI impI conjI)
  fix w rc w'
  assume s: "send_full fd buf n w = Some (rc, w')"
  show "emits (is_write fd) w w'" using s by (rule srv.send_emits)
  obtain bs where "sent fd w' = sent fd w @ bs" "length bs \<le> n" "rc = 0 \<longleftrightarrow> length bs = n"
    using srv.send_sent [OF assms s] by blast
  then show "\<exists>bs more. sent fd w' = sent fd w @ bs \<and> length (bs @ more) = n \<and> (rc = 0 \<longrightarrow> more = [])"
    by (intro exI [of _ bs] exI [of _ "replicate (n - length bs) 0"]) auto
qed

lemma sends_local_part:
  assumes "n \<le> length bs"
  shows "sends fd (is_msg (take n bs)) (send_full fd (Local bs) n)"
  unfolding sends_def is_msg_def
proof (intro allI impI conjI)
  fix w rc w'
  assume s: "send_full fd (Local bs) n w = Some (rc, w')"
  show "emits (is_write fd) w w'" using s by (rule srv.send_emits)
  obtain xs where "sent fd w' = sent fd w @ xs" "length xs \<le> n" "rc = 0 \<longleftrightarrow> length xs = n" "xs = take (length xs) bs"
    using srv.send_sent [OF _ s] assms by auto
  then show "\<exists>xs more. sent fd w' = sent fd w @ xs \<and> xs @ more = take n bs \<and> (rc = 0 \<longrightarrow> more = [])"
    by (intro exI [of _ xs] exI [of _ "drop (length xs) (take n bs)"])
      (auto simp: take_drop [symmetric] intro: append_take_drop_id [of "length xs" "take n bs", THEN trans [rotated]])
qed

lemma sends_hdr: "sends fd (is_msg (hdr_bytes h)) (send_full fd (Local (hdr_bytes h)) OJLS_PROTO_HDR_LEN)"
  using sends_local [of fd "hdr_bytes h"] by (simp add: consts_defs)

lemma sends_error: "sends fd (is_msg (hdr_bytes (error_hdr req st))) (send_error fd req st)"
  unfolding send_error_def by (rule sends_hdr)

section \<open>The handler of one image\<close>

text \<open>
  What a handler leaves: it has sent nothing and reports a status for the caller to send, or
  it has sent a message of \<open>M\<close>, completely (0) or cut short by the connection (-1).
\<close>

definition handled :: "int \<Rightarrow> (u8 list \<Rightarrow> bool) \<Rightarrow> world \<Rightarrow> int \<Rightarrow> world \<Rightarrow> bool" where
  "handled fd M w st w' \<longleftrightarrow> rcvd fd w' = rcvd fd w \<and> world_env w' = world_env w \<and>
     ((st = st_int OJLS_ST_HW_ERROR \<or> st = st_int OJLS_ST_HW_TIMEOUT) \<and> sent fd w' = sent fd w \<or>
      (st = 0 \<or> st = -1) \<and>
        (\<exists>bs more. sent fd w' = sent fd w @ bs \<and> M (bs @ more) \<and> (st = 0 \<longrightarrow> more = [])))"

definition image_msg :: "ojls_hdr \<Rightarrow> u8 list \<Rightarrow> bool" where
  "image_msg req bs \<longleftrightarrow> (\<exists>n image. length image = unat n \<and> bs = hdr_bytes (encode_resp req n) @ image)"

lemma handled_error:
  "emits (hw_event k) w w' \<Longrightarrow> fd \<noteq> k \<Longrightarrow> st = OJLS_ST_HW_ERROR \<or> st = OJLS_ST_HW_TIMEOUT \<Longrightarrow>
     handled fd M w (st_int st) w'"
  by (auto simp: handled_def hw_emits_wire emits_env)

text \<open>A step that the connection does not see, before the handler does its work.\<close>

lemma handled_after:
  "emits (hw_event k) w u \<Longrightarrow> fd \<noteq> k \<Longrightarrow> handled fd M u st w' \<Longrightarrow> handled fd M w st w'"
  by (simp add: handled_def hw_emits_wire emits_env)

lemma handled_sends:
  assumes "any_fails ms w = Some (b, w')" and "list_all2 (sends fd) Ms ms" "\<forall>M\<in>set Ms. Ex M"
    and "\<And>bs. cat_msgs Ms bs \<Longrightarrow> M bs"
  shows "handled fd M w (if b then -1 else 0) w'"
proof -
  from sends_any_fails [OF assms(2,3,1)] obtain bs more where
    "emits (is_write fd) w w'" "sent fd w' = sent fd w @ bs" "cat_msgs Ms (bs @ more)" "\<not> b \<longrightarrow> more = []" by blast
  moreover from this(1) have "rcvd fd w' = rcvd fd w"
    by (intro rcvd_emits) (blast intro: emits_mono dest: is_write_not_read)
  ultimately show ?thesis
    using assms(4) by (auto simp: handled_def emits_env)
qed

lemma encode_reply_handled:
  assumes "encode_reply fd hw req s2mm w = Some (st, w')" and "fd \<noteq> k"
  shows "handled fd (image_msg req) w st w'"
proof -
  obtain t w1 where 1: "now_us w = (t, w1)" by force
  obtain n w2 where 2: "axidma_ring_bytes s2mm w1 = (n, w2)" by force
  obtain sy w3 where 3: "udmabuf_sync_for_cpu (rg_b (hw_rx hw)) (rg_off (hw_rx hw)) n w2 = (sy, w3)" by force
  have e: "emits (hw_event k) w w3"
    by (intro to_cpu_after [OF 3] ring_bytes_after [OF 2] now_us_after [OF 1] emits_refl)
  show ?thesis
  proof (cases "sy = 0")
    case False
    with assms 1 2 3 have "st = st_int OJLS_ST_HW_ERROR" "w' = w3" by (simp_all add: encode_reply_def)
    with e assms(2) show ?thesis by (auto intro: handled_error)
  next
    case True
    with assms 1 2 3 obtain b where
      a: "any_fails [send_full fd (Local (hdr_bytes (encode_resp req n))) OJLS_PROTO_HDR_LEN,
        send_full fd (Mem (region_mem (hw_rx hw))) (unat n)] w3 = Some (b, w')" "st = (if b then -1 else 0)"
      by (auto simp: encode_reply_def split: Option.bind_splits simp del: any_fails.simps)
    have "handled fd (image_msg req) w3 st w'"
      unfolding a(2)
      by (rule handled_sends [OF a(1), where Ms = "[is_msg (hdr_bytes (encode_resp req n)), len_msg (unat n)]"])
        (auto simp: sends_hdr sends_mem image_msg_def is_msg_def len_msg_def)
    with e assms(2) show ?thesis by (rule handled_after)
  qed
qed

text \<open>Events between the hand-over of the descriptors and the start that touch neither.\<close>

definition idle_event :: "event \<Rightarrow> bool" where
  "idle_event e \<longleftrightarrow> (\<forall>a vs. e \<noteq> EvStore a vs) \<and> \<not> is_attr e"

text \<open>The part of \<open>encode_and_reply\<close> up to the end of a transfer that went well.\<close>

definition transferred ::
  "hw \<Rightarrow> ojls_hdr \<Rightarrow> u32 \<Rightarrow> (axidma_ring \<times> axidma_ring) \<Rightarrow> u64 \<times> u32 \<Rightarrow> world \<Rightarrow> world \<Rightarrow> bool" where
  "transferred hw req pct rings rx w w' \<longleftrightarrow>
     (\<exists>w1 w2 w3 w4 w5. any_fails
        [hw_configure hw (h_width req) (h_height req), io_of (gate_set hw pct),
         io_of (udmabuf_sync_for_device (rg_b (hw_tx hw)) (rg_off (hw_tx hw)) (h_payload_len req)),
         axidma_reset (hw_dma hw)] w = Some (False, w1) \<and>
      build_rings hw (fst rx) (snd rx) (h_payload_len req) w1 = (Some rings, w2) \<and>
      udmabuf_sync_for_device (hw_desc_buf hw) 0 (b_size (hw_desc_buf hw)) w2 = (0, w3) \<and>
      (\<exists>es. list_all idle_event es \<and> w4 = w3\<lparr>hist := es @ hist w3\<rparr>) \<and>
      axidma_sg_start (hw_dma hw) AXIDMA_S2MM (fst rings) w4 = (0, w5) \<and>
      axidma_sg_start (hw_dma hw) AXIDMA_MM2S (snd rings) w5 = (0, w'))"

lemma build_rings_after [emits_intros]:
  "build_rings hw len c n w1 = (r, w2) \<Longrightarrow> emits (hw_event k) w w1 \<Longrightarrow> emits (hw_event k) w w2"
  by (auto simp: build_rings_def Let_def split: prod.splits option.splits) (assumption | erule emits_intros)+

lemma any_fails_after:
  assumes "any_fails ms w1 = Some (b, w2)" and "emits P w w1"
    and "\<And>m u r v. m \<in> set ms \<Longrightarrow> m u = Some (r, v) \<Longrightarrow> emits P u v"
  shows "emits P w w2"
  using assms(2) emits_any_fails [OF assms(1,3)] by (rule emits_trans)

lemma io_of_some [simp]: "io_of f w = Some (r, w') \<longleftrightarrow> f w = (r, w')"
  by (simp add: io_of_def)

text \<open>The two groups of operations that both handlers start with.\<close>

lemma prepare_after:
  assumes "any_fails [hw_configure hw wd ht, io_of (gate_set hw pct),
      io_of (udmabuf_sync_for_device b off n), axidma_reset d] w1 = Some (bad, w2)" and "emits (hw_event k) w w1"
  shows "emits (hw_event k) w w2"
  using assms by (rule any_fails_after) (auto intro: emits_intros)

lemma start_after:
  assumes "any_fails [io_of (axidma_sg_start d c1 r1), io_of (axidma_sg_start d c2 r2)] w1 = Some (bad, w2)"
    and "emits (hw_event k) w w1"
  shows "emits (hw_event k) w w2"
  using assms by (rule any_fails_after) (auto intro: emits_intros)

lemma encode_and_reply_cases:
  assumes "encode_and_reply fd hw req ms w = Some (st, w')"
  obtains (failed) e where "emits (hw_event (u_fd (dma_uio (hw_dma hw)))) w w'" "st = st_int e"
      "e = OJLS_ST_HW_ERROR \<or> e = OJLS_ST_HW_TIMEOUT"
  | (replied) rings w5 w6 where "transferred hw req 100 rings (ucast (rg_size (hw_rx hw)), AXIDMA_DESC_CHUNK) w w5"
      "axidma_wait (hw_dma hw) AXIDMA_S2MM (fst rings) ms w5 = Some (0, w6)"
      "emits (hw_event (u_fd (dma_uio (hw_dma hw)))) w w6" "encode_reply fd hw req (fst rings) w6 = Some (st, w')"
proof -
  let ?k = "u_fd (dma_uio (hw_dma hw))" and ?P = "OJLS_ST_HW_ERROR"
  from assms obtain bad1 w1 where p: "any_fails
       [hw_configure hw (h_width req) (h_height req), io_of (gate_set hw 100),
        io_of (udmabuf_sync_for_device (rg_b (hw_tx hw)) (rg_off (hw_tx hw)) (h_payload_len req)),
        axidma_reset (hw_dma hw)] w = Some (bad1, w1)"
    by (auto simp: encode_and_reply_def split: Option.bind_splits simp del: any_fails.simps)
  obtain rings w2 where b: "build_rings hw (ucast (rg_size (hw_rx hw))) AXIDMA_DESC_CHUNK (h_payload_len req) w1 = (rings, w2)"
    by force
  obtain sy w3 where s: "udmabuf_sync_for_device (hw_desc_buf hw) 0 (b_size (hw_desc_buf hw)) w2 = (sy, w3)" by force
  obtain t w4 where n: "now_us w3 = (t, w4)" by force
  have e1: "emits (hw_event ?k) w w1" by (rule prepare_after [OF p emits_refl])
  note e2 = build_rings_after [OF b e1]
  note e3 = to_device_after [OF s e2]
  note e4 = now_us_after [OF n e3]
  show thesis
  proof (cases "bad1 \<or> rings = None \<or> sy \<noteq> 0")
    case True
    with assms p b s have "st = st_int ?P \<and> (w' = w1 \<or> w' = w2 \<or> w' = w3)"
      by (auto simp: encode_and_reply_def simp del: any_fails.simps split: option.splits if_splits)
    with e1 e2 e3 show thesis by (auto intro: failed [of ?P])
  next
    case False
    then obtain s2mm mm2s where r: "rings = Some (s2mm, mm2s)" by auto
    with assms p b s n False obtain bad2 w5 where st: "any_fails
        [io_of (axidma_sg_start (hw_dma hw) AXIDMA_S2MM s2mm), io_of (axidma_sg_start (hw_dma hw) AXIDMA_MM2S mm2s)] w4 = Some (bad2, w5)"
      by (auto simp: encode_and_reply_def simp del: any_fails.simps split: Option.bind_splits)
    note e5 = start_after [OF st e4]
    show thesis
    proof (cases bad2)
      case True
      with assms p b s n r st False have "st = st_int ?P" "w' = w5"
        by (auto simp: encode_and_reply_def simp del: any_fails.simps)
      with e5 show thesis by (auto intro: failed [of ?P])
    next
      case ok: False
      with assms p b s n r st False obtain rc w6 where wt: "axidma_wait (hw_dma hw) AXIDMA_S2MM s2mm ms w5 = Some (rc, w6)"
        by (auto simp: encode_and_reply_def simp del: any_fails.simps split: Option.bind_splits)
      note e6 = axidma_wait_after [OF wt e5]
      show thesis
      proof (cases "rc = 0")
        case True
        have "transferred hw req 100 (s2mm, mm2s) (ucast (rg_size (hw_rx hw)), AXIDMA_DESC_CHUNK) w w5"
          unfolding transferred_def
        proof (intro exI conjI)
          show "any_fails [hw_configure hw (h_width req) (h_height req), io_of (gate_set hw 100),
             io_of (udmabuf_sync_for_device (rg_b (hw_tx hw)) (rg_off (hw_tx hw)) (h_payload_len req)),
             axidma_reset (hw_dma hw)] w = Some (False, w1)" using p False by simp
          show "build_rings hw (fst (ucast (rg_size (hw_rx hw)), AXIDMA_DESC_CHUNK)) (snd (ucast (rg_size (hw_rx hw)), AXIDMA_DESC_CHUNK))
             (h_payload_len req) w1 = (Some (s2mm, mm2s), w2)" using b r by simp
          show "udmabuf_sync_for_device (hw_desc_buf hw) 0 (b_size (hw_desc_buf hw)) w2 = (0, w3)" using s False by simp
          show "list_all idle_event [EvClock (fst (env_clock (world_env w3) (hist w3))) (snd (env_clock (world_env w3) (hist w3)))]"
            by (simp add: idle_event_def)
          show "w4 = w3\<lparr>hist := [EvClock (fst (env_clock (world_env w3) (hist w3))) (snd (env_clock (world_env w3) (hist w3)))] @ hist w3\<rparr>"
            using now_us_log [OF n] by (simp add: log_def)
          show "axidma_sg_start (hw_dma hw) AXIDMA_S2MM (fst (s2mm, mm2s)) w4 = (0, snd (axidma_sg_start (hw_dma hw) AXIDMA_S2MM s2mm w4))"
            "axidma_sg_start (hw_dma hw) AXIDMA_MM2S (snd (s2mm, mm2s)) (snd (axidma_sg_start (hw_dma hw) AXIDMA_S2MM s2mm w4)) = (0, w5)"
            using st ok by (auto simp: io_of_def split: if_splits prod.splits)
        qed
        moreover have "encode_reply fd hw req (fst (s2mm, mm2s)) w6 = Some (st, w')"
          using assms p b s n r st False ok wt True by (auto simp: encode_and_reply_def simp del: any_fails.simps)
        ultimately show thesis
          using wt True e6 replied [of "(s2mm, mm2s)" w5 w6] by simp
      next
        case rc: False
        with assms p b s n r st False ok wt obtain x where
          "hw_recover hw (h_width req) (h_height req) w6 = Some (x, w')"
          "st = st_int (if rc = -2 then OJLS_ST_HW_TIMEOUT else OJLS_ST_HW_ERROR)"
          by (auto simp: encode_and_reply_def simp del: any_fails.simps split: Option.bind_splits)
        with hw_recover_after [OF _ e6] show thesis by (intro failed) auto
      qed
    qed
  qed
qed

lemma encode_and_reply_handled:
  assumes "encode_and_reply fd hw req ms w = Some (st, w')" and "fd \<noteq> u_fd (dma_uio (hw_dma hw))"
  shows "handled fd (image_msg req) w st w'"
  using assms(1)
proof (cases rule: encode_and_reply_cases)
  case (failed e)
  with assms(2) show ?thesis by (auto intro: handled_error)
next
  case (replied rings w5 w6)
  with assms(2) show ?thesis by (blast intro: handled_after encode_reply_handled)
qed

section \<open>The handler of a stream\<close>

text \<open>The message a stream is answered with: the lengths, then the images.\<close>

definition stream_msg_of :: "ojls_hdr \<Rightarrow> u8 \<Rightarrow> u32 \<Rightarrow> u32 list \<Rightarrow> u8 list list \<Rightarrow> u8 list" where
  "stream_msg_of req st cnt lens images =
     hdr_bytes (stream_resp req st (stream_total lens cnt)) @ concat (map u32_bytes lens) @ concat images"

definition stream_msg :: "ojls_hdr \<Rightarrow> u32 \<Rightarrow> u8 list \<Rightarrow> bool" where
  "stream_msg req cnt bs \<longleftrightarrow>
     (\<exists>st lens images. length lens = unat cnt \<and> map length images = map unat lens \<and>
        bs = stream_msg_of req st cnt lens images)"

definition stream_msg_st :: "ojls_hdr \<Rightarrow> u32 \<Rightarrow> u8 \<Rightarrow> u8 list \<Rightarrow> bool" where
  "stream_msg_st req cnt st bs \<longleftrightarrow>
     (\<exists>lens images. length lens = unat cnt \<and> map length images = map unat lens \<and>
        bs = stream_msg_of req st cnt lens images)"

lemma stream_msg_st: "stream_msg_st req cnt st bs \<Longrightarrow> stream_msg req cnt bs"
  by (auto simp: stream_msg_def stream_msg_st_def)

lemma handled_free: "handled fd M w st w' \<Longrightarrow> handled fd M w st (sys_free w')"
  by (simp add: handled_def sys_free_def)

lemma handled_mono: "handled fd M w st w' \<Longrightarrow> (\<And>bs. M bs \<Longrightarrow> N bs) \<Longrightarrow> handled fd N w st w'"
  by (auto simp: handled_def)

lemma stream_cat_msgs:
  assumes "cat_msgs (is_msg h # map (\<lambda>l. is_msg (u32_bytes l)) lens @ map (\<lambda>l. len_msg (unat l)) lens) bs"
  shows "\<exists>images. map length images = map unat lens \<and> bs = h @ concat (map u32_bytes lens) @ concat images"
proof -
  have m: "map (\<lambda>l. is_msg (u32_bytes l)) lens = map is_msg (map u32_bytes lens)"
    "map (\<lambda>l. len_msg (unat l)) lens = map len_msg (map unat lens)" by simp_all
  from assms show ?thesis
    unfolding m cat_msgs.simps cat_msgs_append cat_msgs_is cat_msgs_len by (auto simp: is_msg_def)
qed

lemma stream_send_mem:
  assumes "stream_send fd req st (Mem p) slot lens cnt w = Some (rc, w')" and "length lens = unat cnt"
  shows "handled fd (\<lambda>bs. \<exists>images. map length images = map unat lens \<and> bs = stream_msg_of req st cnt lens images) w rc w'"
proof -
  let ?h = "hdr_bytes (stream_resp req st (stream_total lens cnt))"
  let ?ms = "send_full fd (Local ?h) OJLS_PROTO_HDR_LEN # map (send_len fd lens) [0..<unat cnt]
      @ map (send_image fd (Mem p) slot lens) [0..<unat cnt]"
  let ?Ms = "is_msg ?h # map (\<lambda>l. is_msg (u32_bytes l)) lens @ map (\<lambda>l. len_msg (unat l)) lens"
  from assms(1) obtain b where a: "any_fails ?ms w = Some (b, w')" "rc = (if b then -1 else 0)"
    by (auto simp: stream_send_def split: Option.bind_splits simp del: any_fails.simps)
  have "sends fd (is_msg (u32_bytes l)) (send_full fd (Local (u32_bytes l)) 4)" for l
    using sends_local [of fd "u32_bytes l"] by simp
  then have "list_all2 (sends fd) (map (\<lambda>l. is_msg (u32_bytes l)) lens) (map (send_len fd lens) [0..<unat cnt])"
    by (simp add: list_all2_conv_all_nth assms(2) send_len_def)
  moreover have "list_all2 (sends fd) (map (\<lambda>l. len_msg (unat l)) lens) (map (send_image fd (Mem p) slot lens) [0..<unat cnt])"
    by (simp add: list_all2_conv_all_nth assms(2) send_image_def sends_mem)
  ultimately have "list_all2 (sends fd) ?Ms ?ms"
    by (auto intro!: list_all2_appendI sends_hdr)
  from a(1) this show ?thesis
    unfolding a(2) stream_msg_of_def by (rule handled_sends) (simp add: list_all_iff ball_Un, erule stream_cat_msgs)
qed

lemma closed_lens_length: "closed_lens ring n i w = (ls, w') \<Longrightarrow> length ls = n"
  by (induction n arbitrary: i w ls) (auto split: prod.splits if_splits)

lemma closed_lens_after [emits_intros]:
  "closed_lens ring n i w1 = (ls, w2) \<Longrightarrow> emits (hw_event k) w w1 \<Longrightarrow> emits (hw_event k) w w2"
  by (induction n arbitrary: i w1 ls) (auto split: prod.splits if_splits intro: mem_load_after)

lemma stream_reply_handled:
  assumes "stream_reply fd hw req cnt slot s2mm status w = Some (st, w')" and "fd \<noteq> k"
  shows "handled fd (stream_msg_st req cnt status) w st w'"
proof -
  from assms(1) obtain bad w1 where a: "any_fails
       [io_of (udmabuf_sync_for_cpu (hw_desc_buf hw) 0 (cnt * of_nat desc_size)),
        io_of (udmabuf_sync_for_cpu (rg_b (hw_rx hw)) (rg_off (hw_rx hw)) (slot * cnt))] w = Some (bad, w1)"
    by (auto simp: stream_reply_def split: Option.bind_splits simp del: any_fails.simps)
  have e1: "emits (hw_event k) w w1"
    by (rule any_fails_after [OF a emits_refl]) (auto intro: emits_intros)
  show ?thesis
  proof (cases bad)
    case True
    with assms(1) a have "st = st_int OJLS_ST_HW_ERROR" "w' = sys_free w1"
      by (simp_all add: stream_reply_def del: any_fails.simps)
    with e1 assms(2) show ?thesis by (auto intro: handled_error handled_free)
  next
    case False
    obtain lens w2 where l: "closed_lens s2mm (unat cnt) 0 w1 = (lens, w2)" by force
    from assms(1) a False l obtain rc w3 where
      s: "stream_send fd req status (Mem (region_mem (hw_rx hw))) slot lens cnt w2 = Some (rc, w3)"
      "st = (if rc \<noteq> 0 then -1 else 0)" "w' = sys_free w3"
      by (auto simp: stream_reply_def simp del: any_fails.simps split: Option.bind_splits)
    note h = stream_send_mem [OF s(1) closed_lens_length [OF l]]
    then have "rc = 0 \<or> rc = -1"
      using s(1) by (auto simp: stream_send_def split: Option.bind_splits)
    then have "st = rc" using s(2) by auto
    have "handled fd (stream_msg_st req cnt status) w2 st w3"
      unfolding \<open>st = rc\<close> by (rule handled_mono [OF h]) (use closed_lens_length [OF l] in \<open>auto simp: stream_msg_st_def\<close>)
    then show ?thesis
      unfolding s(3) using closed_lens_after [OF l e1] assms(2) by (blast intro: handled_free handled_after)
  qed
qed

text \<open>
  The two ways \<open>stream_and_reply\<close> goes: it fails before the engines are started, or the
  transfer is started, waited for, and answered with the status that the wait gives.
\<close>

definition wire_same :: "int \<Rightarrow> world \<Rightarrow> world \<Rightarrow> bool" where
  "wire_same fd w w' \<longleftrightarrow> world_env w' = world_env w \<and> rcvd fd w' = rcvd fd w \<and> sent fd w' = sent fd w"

lemma wire_same_trans: "wire_same fd w u \<Longrightarrow> wire_same fd u w' \<Longrightarrow> wire_same fd w w'"
  by (simp add: wire_same_def)

lemma wire_same_hw: "emits (hw_event k) w w' \<Longrightarrow> fd \<noteq> k \<Longrightarrow> wire_same fd w w'"
  by (simp add: wire_same_def hw_emits_wire emits_env)

lemma wire_same_calloc: "sys_calloc n m w = (ok, w') \<Longrightarrow> wire_same fd w w'"
  by (auto simp: sys_calloc_def Let_def wire_same_def)

lemma wire_same_free: "wire_same fd w (sys_free w)"
  by (simp add: sys_free_def wire_same_def)

lemma handled_wire_same: "wire_same fd w u \<Longrightarrow> handled fd M u st w' \<Longrightarrow> handled fd M w st w'"
  by (simp add: handled_def wire_same_def)

lemma handled_unsent: "wire_same fd w w' \<Longrightarrow> handled fd M w (st_int OJLS_ST_HW_ERROR) w'"
  by (simp add: handled_def wire_same_def)

definition wait_status :: "int \<Rightarrow> u8" where
  "wait_status rc = (if rc = 0 then OJLS_ST_OK else if rc = -2 then OJLS_ST_HW_TIMEOUT else OJLS_ST_HW_ERROR)"

lemma stream_and_reply_cases:
  assumes "stream_and_reply fd hw req cnt ms w = Some (st, w')" and fd: "fd \<noteq> u_fd (dma_uio (hw_dma hw))"
  defines "slot \<equiv> stream_slot_bytes (h_payload_len req div cnt)"
    and "pct \<equiv> (if h_ready_pct req \<noteq> 0 then ucast (h_ready_pct req) else 100)"
  obtains (failed) "st = st_int OJLS_ST_HW_ERROR" "wire_same fd w w'"
  | (ran) rings w6 rc w7 w9 where "transferred hw req pct rings (ucast slot * ucast cnt, slot) w w6"
      "axidma_wait_packets (hw_dma hw) (fst rings) ms w6 = Some (rc, w7)" "wire_same fd w w9"
      "stream_reply fd hw req cnt slot (fst rings) (wait_status rc) w9 = Some (st, w')"
proof -
  let ?k = "u_fd (dma_uio (hw_dma hw))"
  note sr = stream_and_reply_def [of fd hw req cnt ms w, unfolded Let_def, folded slot_def pct_def]
  from assms(1) obtain bad1 w1 where p: "any_fails
          [hw_configure hw (h_width req) (h_height req), io_of (gate_set hw pct),
           io_of (udmabuf_sync_for_device (rg_b (hw_tx hw)) (rg_off (hw_tx hw)) (h_payload_len req)),
           axidma_reset (hw_dma hw)] w = Some (bad1, w1)"
    by (auto simp: sr split: Option.bind_splits simp del: any_fails.simps)
  obtain rings w2 where b: "build_rings hw (ucast slot * ucast cnt) slot (h_payload_len req) w1 = (rings, w2)" by force
  obtain sy w3 where s: "udmabuf_sync_for_device (hw_desc_buf hw) 0 (b_size (hw_desc_buf hw)) w2 = (sy, w3)" by force
  obtain ok w4 where c: "sys_calloc cnt 4 w3 = (ok, w4)" by force
  obtain t w5 where n: "now_us w4 = (t, w5)" by force
  have e1: "emits (hw_event ?k) w w1" by (rule prepare_after [OF p emits_refl])
  note e2 = build_rings_after [OF b e1]
  note e3 = to_device_after [OF s e2]
  have v4: "wire_same fd w w4" using wire_same_hw [OF e3 fd] wire_same_calloc [OF c] by (rule wire_same_trans)
  show thesis
  proof (cases "bad1 \<or> rings = None \<or> sy \<noteq> 0 \<or> \<not> ok")
    case True
    with assms(1) p b s c have "st = st_int OJLS_ST_HW_ERROR \<and> (w' = w1 \<or> w' = w2 \<or> w' = w3 \<or> w' = w4)"
      by (auto simp: sr simp del: any_fails.simps split: option.splits if_splits)
    with e1 e2 e3 fd v4 show thesis by (auto intro: failed wire_same_hw)
  next
    case run: False
    then obtain s2mm mm2s where r: "rings = Some (s2mm, mm2s)" by auto
    with assms(1) p b s c n run obtain bad2 w6 where st: "any_fails
        [io_of (axidma_sg_start (hw_dma hw) AXIDMA_S2MM s2mm), io_of (axidma_sg_start (hw_dma hw) AXIDMA_MM2S mm2s)] w5 = Some (bad2, w6)"
      by (auto simp: sr simp del: any_fails.simps split: Option.bind_splits)
    have e6: "emits (hw_event ?k) w4 w6" by (rule start_after [OF st now_us_after [OF n emits_refl]])
    note v6 = wire_same_trans [OF v4 wire_same_hw [OF e6 fd]]
    show thesis
    proof (cases bad2)
      case True
      with assms(1) p b s c n r st run have "st = st_int OJLS_ST_HW_ERROR" "w' = sys_free w6"
        by (auto simp: sr simp del: any_fails.simps)
      with wire_same_trans [OF v6 wire_same_free] show thesis by (intro failed) simp_all
    next
      case started: False
      with assms(1) p b s c n r st run obtain rc w7 where
        wt: "axidma_wait_packets (hw_dma hw) s2mm ms w6 = Some (rc, w7)"
        by (auto simp: sr simp del: any_fails.simps split: Option.bind_splits)
      obtain t8 w8 where n8: "now_us w7 = (t8, w8)" by force
      note e8 = now_us_after [OF n8 axidma_wait_packets_after [OF wt emits_refl]]
      define es where "es = [EvClock (fst (env_clock (world_env w4) (hist w4))) (snd (env_clock (world_env w4) (hist w4))),
          EvMalloc (unat cnt * 4) ok]"
      have mem: "w4 = w3\<lparr>hist := EvMalloc (unat cnt * 4) ok # hist w3\<rparr>"
        using c by (auto simp: sys_calloc_def Let_def log_def)
      have tr: "transferred hw req pct (s2mm, mm2s) (ucast slot * ucast cnt, slot) w w6"
        unfolding transferred_def
      proof (intro exI conjI)
        show "any_fails [hw_configure hw (h_width req) (h_height req), io_of (gate_set hw pct),
           io_of (udmabuf_sync_for_device (rg_b (hw_tx hw)) (rg_off (hw_tx hw)) (h_payload_len req)),
           axidma_reset (hw_dma hw)] w = Some (False, w1)" using p run by simp
        show "build_rings hw (fst (ucast slot * ucast cnt, slot)) (snd (ucast slot * ucast cnt, slot))
           (h_payload_len req) w1 = (Some (s2mm, mm2s), w2)" using b r by simp
        show "udmabuf_sync_for_device (hw_desc_buf hw) 0 (b_size (hw_desc_buf hw)) w2 = (0, w3)" using s run by simp
        show "list_all idle_event es" by (simp add: es_def idle_event_def)
        show "w5 = w3\<lparr>hist := es @ hist w3\<rparr>"
          using now_us_log [OF n] by (simp add: log_def es_def mem)
        show "axidma_sg_start (hw_dma hw) AXIDMA_S2MM (fst (s2mm, mm2s)) w5 = (0, snd (axidma_sg_start (hw_dma hw) AXIDMA_S2MM s2mm w5))"
          "axidma_sg_start (hw_dma hw) AXIDMA_MM2S (snd (s2mm, mm2s)) (snd (axidma_sg_start (hw_dma hw) AXIDMA_S2MM s2mm w5)) = (0, w6)"
          using st started by (auto simp: io_of_def split: if_splits prod.splits)
      qed
      note go = ran [OF tr, simplified, OF wt]
      show thesis
      proof (cases "rc = 0")
        case True
        with assms(1) p b s c n r st run started wt n8
        have "stream_reply fd hw req cnt slot s2mm (wait_status rc) w8 = Some (st, w')"
          by (auto simp: sr wait_status_def simp del: any_fails.simps)
        with wire_same_trans [OF v6 wire_same_hw [OF e8 fd]] show thesis by (intro go)
      next
        case False
        with assms(1) p b s c n r st run started wt n8 obtain x w9 where
          x: "hw_recover hw (h_width req) (h_height req) w8 = Some (x, w9)" and
          y: "stream_reply fd hw req cnt slot s2mm (wait_status rc) w9 = Some (st, w')"
          by (auto simp: sr wait_status_def simp del: any_fails.simps split: Option.bind_splits)
        from wire_same_trans [OF v6 wire_same_hw [OF hw_recover_after [OF x e8] fd]] y show thesis by (rule go)
      qed
    qed
  qed
qed

lemma stream_and_reply_handled:
  assumes "stream_and_reply fd hw req cnt ms w = Some (st, w')" and fd: "fd \<noteq> u_fd (dma_uio (hw_dma hw))"
  shows "handled fd (stream_msg req cnt) w st w'"
  using assms
proof (cases rule: stream_and_reply_cases)
  case failed
  then show ?thesis by (simp add: handled_unsent)
next
  case (ran rings w6 rc w7 w9)
  with fd show ?thesis by (blast intro: handled_wire_same handled_mono stream_reply_handled stream_msg_st)
qed

section \<open>The loopback reply\<close>

definition loopback_msg :: "ojls_hdr \<Rightarrow> u8 list \<Rightarrow> u8 list" where
  "loopback_msg req payload =
     (if h_type req = OJLS_MSG_STREAM_REQ then
        (let sz = image_bytes_of req; cnt = h_payload_len req div sz; lens = replicate (unat cnt) sz
         in hdr_bytes (stream_resp req OJLS_ST_OK (stream_total lens cnt)) @ concat (map u32_bytes lens) @ payload)
      else hdr_bytes (req\<lparr>h_type := OJLS_MSG_ENCODE_RESP, h_status := OJLS_ST_OK\<rparr>) @ payload)"

lemma concat_slices:
  "n * c \<le> length xs \<Longrightarrow> concat (map (\<lambda>i. take c (drop (i * c) xs)) [0..<n]) = take (n * c) xs"
proof (induction n)
  case (Suc n)
  then show ?case
    using take_add [of "n * c" c xs] by (simp add: add.commute)
qed simp

text \<open>An image of a loopback stream starts and ends inside the payload.\<close>

lemma slot_offset:
  assumes "sz \<noteq> 0" and "n mod sz = 0" and "i < unat (n div sz)"
  shows "unat (of_nat i * sz :: u32) = i * unat sz" "i * unat sz + unat sz \<le> unat n"
proof -
  have n: "unat n = unat (n div sz) * unat sz"
    using assms(2) by (metis add.right_neutral div_mult_mod_eq unat_0 unat_div unat_mod)
  have "Suc i * unat sz \<le> unat (n div sz) * unat sz" using assms(3) by (intro mult_right_mono) simp_all
  with n show le: "i * unat sz + unat sz \<le> unat n" by simp
  have "0 < unat sz" using assms(1) by (simp add: unat_gt_0)
  then have "i * 1 \<le> i * unat sz" by (intro mult_le_mono2) simp
  with le unat_u32_less [of n] have "i < 2 ^ 32" "i * unat sz < 2 ^ 32" by linarith+
  then show "unat (of_nat i * sz :: u32) = i * unat sz"
    by (simp add: unat_word_ariths unat_of_nat_small(1))
qed

lemma loopback_stream_sends:
  assumes len: "length pl = unat (h_payload_len req)" and sz: "sz \<noteq> 0" "h_payload_len req mod sz = 0"
    and cnt: "cnt = h_payload_len req div sz" and lens: "lens = replicate (unat cnt) sz"
    and i: "i < unat cnt"
  shows "sends fd (is_msg (take (unat sz) (drop (i * unat sz) pl))) (send_image fd (Local pl) sz lens i)"
proof -
  note o = slot_offset [OF sz i [unfolded cnt]]
  have "unat (of_nat i * sz) = i * unat sz" "unat sz \<le> length (drop (i * unat sz) pl)" using o len by simp_all
  moreover have "lens ! i = sz" using lens i by simp
  ultimately show ?thesis
    by (simp add: send_image_def sends_local_part)
qed

lemma loopback_reply_handled:
  assumes r: "loopback_reply fd req (Local pl) w = Some (rc, w')" and len: "length pl = unat (h_payload_len req)"
    and st: "h_type req = OJLS_MSG_STREAM_REQ \<Longrightarrow> image_bytes_of req \<noteq> 0 \<and> h_payload_len req mod image_bytes_of req = 0"
  shows "(rc = 0 \<or> rc = -1) \<and> handled fd (\<lambda>bs. bs = loopback_msg req pl) w rc w'"
proof (cases "h_type req = OJLS_MSG_STREAM_REQ")
  case True
  define sz where "sz = image_bytes_of req"
  define cnt where "cnt = h_payload_len req div sz"
  define lens where "lens = replicate (unat cnt) sz"
  let ?h = "hdr_bytes (stream_resp req OJLS_ST_OK (stream_total lens cnt))"
  let ?im = "\<lambda>i. take (unat sz) (drop (i * unat sz) pl)"
  have sz: "sz \<noteq> 0" "h_payload_len req mod sz = 0" using st [OF True] sz_def by auto
  have total: "unat cnt * unat sz = length pl"
  proof -
    have "unat (h_payload_len req) mod unat sz = 0" using sz(2) by (metis unat_mod unat_0)
    then show ?thesis unfolding len cnt_def unat_div by (simp add: minus_mod_eq_div_mult [symmetric])
  qed
  have msg: "loopback_msg req pl = ?h @ concat (map u32_bytes lens) @ pl"
    using True by (simp add: loopback_msg_def Let_def sz_def cnt_def lens_def)
  obtain ok w1 where m: "sys_malloc (unat (cnt * 4)) w = (ok, w1)" by force
  then have w1: "rcvd fd w1 = rcvd fd w" "sent fd w1 = sent fd w" "world_env w1 = world_env w"
    by (auto simp: sys_malloc_def Let_def)
  show ?thesis
  proof (cases ok)
    case False
    with r True m have "rc = -1" "w' = w1"
      by (simp_all add: loopback_reply_def Let_def sz_def cnt_def)
    with w1 show ?thesis by (simp add: handled_def)
  next
    case ok: True
    with r True m obtain w2 where s: "stream_send fd req OJLS_ST_OK (Local pl) sz lens cnt w1 = Some (rc, w2)"
      "w' = sys_free w2"
      by (auto simp: loopback_reply_def Let_def sz_def cnt_def lens_def split: Option.bind_splits)
    then obtain b where a: "any_fails (send_full fd (Local ?h) OJLS_PROTO_HDR_LEN # map (send_len fd lens) [0..<unat cnt]
      @ map (send_image fd (Local pl) sz lens) [0..<unat cnt]) w1 = Some (b, w2)" "rc = (if b then -1 else 0)"
      by (auto simp: stream_send_def split: Option.bind_splits simp del: any_fails.simps)
    let ?Ms = "map is_msg (?h # map u32_bytes lens @ map ?im [0..<unat cnt])"
    have "sends fd (is_msg (u32_bytes l)) (send_full fd (Local (u32_bytes l)) 4)" for l
      using sends_local [of fd "u32_bytes l"] by simp
    then have "list_all2 (sends fd) (map is_msg (map u32_bytes lens)) (map (send_len fd lens) [0..<unat cnt])"
      by (simp add: list_all2_conv_all_nth send_len_def lens_def)
    moreover have "list_all2 (sends fd) (map is_msg (map ?im [0..<unat cnt])) (map (send_image fd (Local pl) sz lens) [0..<unat cnt])"
      using loopback_stream_sends [OF len sz cnt_def lens_def] by (simp add: list_all2_conv_all_nth)
    ultimately have l: "list_all2 (sends fd) ?Ms (send_full fd (Local ?h) OJLS_PROTO_HDR_LEN # map (send_len fd lens) [0..<unat cnt]
      @ map (send_image fd (Local pl) sz lens) [0..<unat cnt])"
      by (auto intro!: list_all2_appendI sends_hdr)
    have "handled fd (\<lambda>bs. bs = loopback_msg req pl) w1 rc w2"
      unfolding a(2) msg
    proof (rule handled_sends [OF a(1) l])
      show "\<forall>M\<in>set ?Ms. Ex M" by auto
      fix bs
      assume "cat_msgs ?Ms bs"
      then have "bs = concat (?h # map u32_bytes lens @ map ?im [0..<unat cnt])" by (simp only: cat_msgs_is)
      then show "bs = ?h @ concat (map u32_bytes lens) @ pl"
        using total concat_slices [of "unat cnt" "unat sz" pl] by simp
    qed
    then have "handled fd (\<lambda>bs. bs = loopback_msg req pl) w1 rc w'"
      unfolding s(2) by (rule handled_free)
    with w1 a(2) show ?thesis by (auto simp: handled_def)
  qed
next
  case False
  let ?h = "hdr_bytes (req\<lparr>h_type := OJLS_MSG_ENCODE_RESP, h_status := OJLS_ST_OK\<rparr>)"
  from r False obtain b where a: "any_fails [send_full fd (Local ?h) OJLS_PROTO_HDR_LEN,
      send_full fd (Local pl) (unat (h_payload_len req))] w = Some (b, w')" "rc = (if b then -1 else 0)"
    by (auto simp: loopback_reply_def split: Option.bind_splits simp del: any_fails.simps)
  have "sends fd (is_msg pl) (send_full fd (Local pl) (unat (h_payload_len req)))"
    using sends_local [of fd pl] len by simp
  then have "handled fd (\<lambda>bs. bs = loopback_msg req pl) w rc w'"
    unfolding a(2) by (intro handled_sends [OF a(1), where Ms = "[is_msg ?h, is_msg pl]"])
      (use False in \<open>auto simp: sends_hdr is_msg_def loopback_msg_def\<close>)
  with a(2) show ?thesis by auto
qed

end
