(* ===== verification/OJLS_Serve.thy ===== *)
theory OJLS_Serve
  imports OJLS_Encode
begin

text \<open>
  The connection loop of \<open>ojls_server.c\<close>: the checks a request passes, the three ways it is
  answered, the loop over the requests of a connection, and \<open>main\<close> with its options and its
  accept loop.
\<close>

unbundle bit_operations_syntax

section \<open>The checks\<close>

definition is_stream :: "ojls_hdr \<Rightarrow> bool" where
  "is_stream req \<longleftrightarrow> h_type req = OJLS_MSG_STREAM_REQ"

definition check_proto :: "ojls_hdr \<Rightarrow> u8" where
  "check_proto req =
     (let st = (if h_version req \<noteq> OJLS_PROTO_VERSION then OJLS_ST_BAD_VERSION
                else if h_type req \<noteq> OJLS_MSG_ENCODE_REQ \<and> h_type req \<noteq> OJLS_MSG_STREAM_REQ
                then OJLS_ST_BAD_TYPE else OJLS_ST_OK)
      in if st = OJLS_ST_OK \<and> is_stream req \<and> h_ready_pct req > 100 then OJLS_ST_BAD_READY else st)"

text \<open>The size of the payload against the dimensions; with the number of images on success.\<close>

definition check_size :: "ojls_hdr \<Rightarrow> u8 \<times> u32" where
  "check_size req =
     (let expect = image_bytes_of req
      in if h_bitness req < 8 \<or> h_bitness req > 16 then (OJLS_ST_BAD_BITNESS, 1)
         else if (if is_stream req
                  then expect = 0 \<or> h_payload_len req = 0 \<or> h_payload_len req mod expect \<noteq> 0
                  else h_payload_len req \<noteq> expect) then (OJLS_ST_SIZE_MISMATCH, 1)
         else (OJLS_ST_OK, if is_stream req then h_payload_len req div expect else 1))"

text \<open>What the hardware can take; \<open>cnt\<close> is the number of images.\<close>

definition check_hw :: "hw \<Rightarrow> ojls_hdr \<Rightarrow> u32 \<Rightarrow> u8" where
  "check_hw hw req cnt =
     (if ucast (h_bitness req) \<noteq> hw_bitness hw then OJLS_ST_BAD_BITNESS
      else if ucast (h_width req) < OJLS_MIN_WIDTH \<or> ucast (h_width req) > hw_max_width hw \<or>
              ucast (h_height req) < OJLS_MIN_HEIGHT \<or> ucast (h_height req) > hw_max_height hw
      then OJLS_ST_BAD_DIMS
      else if h_payload_len req > rg_size (hw_tx hw) \<or>
              (ucast (h_payload_len req) + ucast (h_payload_len req div 4) + 4096 :: u64)
                > ucast (rg_size (hw_rx hw))
      then OJLS_ST_TOO_LARGE
      else if is_stream req \<and>
              ((ucast cnt * ucast (stream_slot_bytes (h_payload_len req div cnt)) :: u64)
                 > ucast (rg_size (hw_rx hw)) \<or>
               (ucast cnt * of_nat desc_size :: u64) > ucast (b_size (hw_desc_buf hw) div 2))
      then OJLS_ST_TOO_LARGE
      else OJLS_ST_OK)"

definition check_request :: "hw \<Rightarrow> options \<Rightarrow> ojls_hdr \<Rightarrow> u8 \<times> u32" where
  "check_request hw opt req =
     (let st1 = check_proto req;
          (st2, cnt) = (if st1 = OJLS_ST_OK then check_size req else (st1, 1));
          st3 = (if st2 = OJLS_ST_OK \<and> \<not> opt_loopback opt then check_hw hw req cnt else st2)
      in (st3, cnt))"

section \<open>One request\<close>

text \<open>
  The loopback buffer as the loop keeps it: whether \<open>loop_buf\<close> is allocated, and \<open>loop_cap\<close>.
\<close>

type_synonym loopbuf = "bool \<times> size_t"

definition free_buf :: "loopbuf \<Rightarrow> world \<Rightarrow> world" where
  "free_buf lb w = (if fst lb then sys_free w else w)"

text \<open>A rejected request: its payload is discarded, its sender told.\<close>

definition serve_reject :: "int \<Rightarrow> ojls_hdr \<Rightarrow> u8 \<Rightarrow> int io" where
  "serve_reject fd req st w = do {
     (bad, w1) \<leftarrow> any_fails [drain fd (unat (h_payload_len req)), send_error fd req st] w;
     Some (if bad then -1 else 0, w1)
   }"

text \<open>The buffer grown to the payload, if it is too small; \<open>loop_cap\<close> is 0 after a failed \<open>malloc\<close>.\<close>

definition grow_loopbuf :: "u32 \<Rightarrow> loopbuf \<Rightarrow> world \<Rightarrow> loopbuf \<times> world" where
  "grow_loopbuf len lb w =
     (if snd lb < len then
        (let w1 = free_buf lb w; (ok, w2) = sys_malloc (unat len) w1
         in ((ok, if ok then len else 0), w2))
      else (lb, w))"

definition serve_loopback :: "int \<Rightarrow> ojls_hdr \<Rightarrow> loopbuf \<Rightarrow> (int \<times> loopbuf) io" where
  "serve_loopback fd req lb w =
     (let (lb1, w1) = grow_loopbuf (h_payload_len req) lb w
      in if snd lb < h_payload_len req \<and> \<not> fst lb1 then Some ((-1, lb1), w1)
         else do {
           ((rc, payload), w2) \<leftarrow> recv_full fd None (unat (h_payload_len req)) w1;
           if rc \<noteq> 0 then Some ((-1, lb1), w2)
           else do {
             (rr, w3) \<leftarrow> loopback_reply fd req (Local payload) w2;
             Some ((if rr \<noteq> 0 then -1 else 0, lb1), w3)
           }
         })"

definition serve_hw :: "int \<Rightarrow> hw \<Rightarrow> ojls_hdr \<Rightarrow> u32 \<Rightarrow> int \<Rightarrow> int io" where
  "serve_hw fd hw req cnt timeout_ms w = do {
     ((rc, _), w1) \<leftarrow> recv_full fd (Some (region_mem (hw_tx hw))) (unat (h_payload_len req)) w;
     if rc \<noteq> 0 then Some (-1, w1)
     else do {
       (st, w2) \<leftarrow> (if is_stream req then stream_and_reply fd hw req cnt timeout_ms w1
                     else encode_and_reply fd hw req timeout_ms w1);
       if st < 0 then Some (-1, w2)
       else if st \<noteq> 0 then do {
         (se, w3) \<leftarrow> send_error fd req (of_int st) w2;
         Some (if se \<noteq> 0 then -1 else 0, w3)
       }
       else Some (0, w2)
     }
   }"

section \<open>A connection\<close>

definition serve_body :: "int \<Rightarrow> hw \<Rightarrow> options \<Rightarrow> loopbuf \<Rightarrow> (loopbuf + int \<times> loopbuf) io" where
  "serve_body fd hw opt lb w = do {
     ((rc, hdr_raw), w1) \<leftarrow> recv_full fd None OJLS_PROTO_HDR_LEN w;
     if rc = 1 then Some (Inr (0, lb), w1)
     else if rc \<noteq> 0 then Some (Inr (rc, lb), w1)
     else
       (let req = ojls_hdr_unpack hdr_raw
        in if h_magic req \<noteq> OJLS_PROTO_MAGIC then do {
             (_, w2) \<leftarrow> send_error fd req OJLS_ST_BAD_MAGIC w1;
             Some (Inr (-1, lb), w2)
           }
           else
             (let (st, cnt) = check_request hw opt req
              in if st \<noteq> OJLS_ST_OK then do {
                   (rr, w2) \<leftarrow> serve_reject fd req st w1;
                   Some (if rr \<noteq> 0 then Inr (-1, lb) else Inl lb, w2)
                 }
                 else if opt_loopback opt then do {
                   ((rr, lb1), w2) \<leftarrow> serve_loopback fd req lb w1;
                   Some (if rr \<noteq> 0 then Inr (-1, lb1) else Inl lb1, w2)
                 }
                 else do {
                   (rr, w2) \<leftarrow> serve_hw fd hw req cnt (opt_timeout_ms opt) w1;
                   Some (if rr \<noteq> 0 then Inr (-1, lb) else Inl lb, w2)
                 }))
   }"

definition serve_connection :: "int \<Rightarrow> hw \<Rightarrow> options \<Rightarrow> int io" where
  "serve_connection fd hw opt w = do {
     ((rc, lb), w1) \<leftarrow> c_loop (serve_body fd hw opt) (False, 0) w;
     Some (rc, free_buf lb w1)
   }"

section \<open>The program\<close>

definition default_options :: options where
  "default_options =
     \<lparr>opt_port = OJLS_PROTO_PORT, opt_regs_name = ''openjls'', opt_dma_name = ''dma'',
      opt_gate_name = ''ready_gate'', opt_tx_buf = None, opt_rx_buf = None, opt_desc_buf = None,
      opt_timeout_ms = 10000, opt_loopback = False\<rparr>"

text \<open>The options that take a value.\<close>

definition set_option :: "string \<Rightarrow> string \<Rightarrow> options \<Rightarrow> options option" where
  "set_option a v opt =
     (if a = ''-p'' then Some (opt\<lparr>opt_port := c_atoi v\<rparr>)
      else if a = ''--regs'' then Some (opt\<lparr>opt_regs_name := v\<rparr>)
      else if a = ''--dma'' then Some (opt\<lparr>opt_dma_name := v\<rparr>)
      else if a = ''--gate'' then Some (opt\<lparr>opt_gate_name := v\<rparr>)
      else if a = ''--tx-buf'' then Some (opt\<lparr>opt_tx_buf := Some v\<rparr>)
      else if a = ''--rx-buf'' then Some (opt\<lparr>opt_rx_buf := Some v\<rparr>)
      else if a = ''--desc-buf'' then Some (opt\<lparr>opt_desc_buf := Some v\<rparr>)
      else if a = ''--timeout'' then Some (opt\<lparr>opt_timeout_ms := c_atoi v\<rparr>)
      else None)"

text \<open>The arguments after the program's name; \<open>Inl\<close> is the exit status after the usage text.\<close>

function parse_args :: "options \<Rightarrow> string list \<Rightarrow> int + options" where
  "parse_args opt [] = Inr opt"
| "parse_args opt (a # rest) =
     (case (if rest = [] then None else set_option a (hd rest) opt) of
        Some opt1 \<Rightarrow> parse_args opt1 (tl rest)
      | None \<Rightarrow>
          if a = ''--loopback'' then parse_args (opt\<lparr>opt_loopback := True\<rparr>) rest
          else Inl (if a = ''-h'' \<or> a = ''--help'' then 0 else 1))"
  by pat_completeness auto
termination
  by (relation "measure (\<lambda>(_, args). length args)") (auto simp: less_Suc_eq_le)

definition accept_body :: "hw \<Rightarrow> options \<Rightarrow> unit \<Rightarrow> (unit + unit) io" where
  "accept_body hw opt s w =
     (let (stop, w1) = sys_stopped w
      in if stop then Some (Inr (), w1)
         else
           (let (r, w2) = sys_accept w1
            in case r of
                 AEintr \<Rightarrow> Some (Inl (), w2)
               | AError \<Rightarrow> Some (Inr (), w2)
               | AConn fd \<Rightarrow> do {
                   (_, w3) \<leftarrow> serve_connection fd hw opt w2;
                   Some (Inl (), sys_close fd w3)
                 }))"

definition server_listen :: "hw \<Rightarrow> options \<Rightarrow> int io" where
  "server_listen hw opt w =
     (let (listen_fd, w1) = sys_socket w
      in if listen_fd < 0 then Some (1, w1)
         else
           (let (ok, w2) = sys_listen listen_fd (of_int (opt_port opt)) w1
            in if \<not> ok then Some (1, w2)
               else do {
                 (_, w3) \<leftarrow> c_loop (accept_body hw opt) () w2;
                 let w4 = sys_close listen_fd w3;
                 Some (0, if opt_loopback opt then w4 else snd (hw_close hw w4))
               }))"

definition server_main :: "string list \<Rightarrow> int io" where
  "server_main args w =
     (case parse_args default_options args of
        Inl code \<Rightarrow> Some (code, w)
      | Inr opt \<Rightarrow>
          if opt_loopback opt then server_listen hw_zero opt w
          else do {
            ((rc, hw), w1) \<leftarrow> hw_open opt w;
            if rc \<noteq> 0 then Some (1, w1) else server_listen hw opt w1
          })"

end
