(* ===== verification/OJLS_Transfer.thy ===== *)
theory OJLS_Transfer
  imports OJLS_Encode
begin

text \<open>
  What the handlers of \<open>ojls_server.c\<close> tell the hardware before they wait for it: the state of
  the two DMA engines, of the core's dimension registers and of the cache hand-over, read off
  the log of the register writes, the descriptor stores and the sysfs writes.
\<close>

unbundle bit_operations_syntax

section \<open>What the engines are told\<close>

lemma halves_disjoint:
  fixes base size :: size_t
  defines "half \<equiv> size div 2"
  assumes "n * desc_size \<le> unat half" and "m * desc_size \<le> unat (size - half)" and "i < n" and "j < m"
  shows "base + of_nat (i * desc_size) \<noteq> base + half + of_nat (j * desc_size)"
proof
  assume "base + of_nat (i * desc_size) = base + half + of_nat (j * desc_size)"
  then have e: "unat (of_nat (i * desc_size) :: size_t) = unat (half + of_nat (j * desc_size))"
    by (simp add: add.assoc)
  have h: "unat half = unat size div 2" by (simp add: half_def unat_div)
  have "unat (size - half) = unat size - unat half"
    by (rule unat_sub) (simp add: half_def word_le_nat_alt unat_div)
  with assms(3,5) h have j: "j * desc_size + 64 \<le> unat size - unat size div 2" by (simp add: consts_defs)
  have i: "i * desc_size < unat half" using assms(2,4) by (simp add: consts_defs)
  have "unat (of_nat (i * desc_size) :: size_t) = i * desc_size"
    using i unat_u32_less [of half] by (intro unat_of_nat_small) simp
  moreover have "unat (half + of_nat (j * desc_size)) = unat half + j * desc_size"
  proof -
    have "unat half + j * desc_size < 2 ^ 32" using j h unat_u32_less [of size] by simp
    moreover from this have "unat (of_nat (j * desc_size) :: size_t) = j * desc_size"
      by (intro unat_of_nat_small) simp
    ultimately show ?thesis
      by (simp only: unat_word_ariths) (simp add: take_bit_nat_eq_self)
  qed
  ultimately show False using e i by simp
qed

text \<open>The two rings do not get in each other's way: both chains are complete in the end.\<close>

lemma build_rings_walks:
  assumes b: "build_rings hw len chunk n w = (Some (s2mm, mm2s), w')"
    and chunk: "0 < chunk" "chunk \<le> AXIDMA_DESC_LEN_MASK" and len: "unat len < 2 ^ 58"
  shows "dma_walk (hist w') s2mm (nat (r_count s2mm)) (r_phys s2mm) (ring_tail s2mm) =
      Some (ring_segs (region_phys (hw_rx hw)) (unat len) (unat chunk) False)"
    and "dma_walk (hist w') mm2s (nat (r_count mm2s)) (r_phys mm2s) (ring_tail mm2s) =
      Some (ring_segs (region_phys (hw_tx hw)) (unat n) (unat AXIDMA_DESC_CHUNK) True)"
    and "0 < r_count s2mm" "0 < r_count mm2s"
proof -
  let ?db = "hw_desc_buf hw"
  let ?half = "b_size ?db div 2"
  from b obtain w1 where
    b1: "axidma_ring_build ?db 0 ?half (region_phys (hw_rx hw)) len chunk False w = (Some s2mm, w1)" and
    b2: "axidma_ring_build ?db ?half (b_size ?db - ?half) (region_phys (hw_tx hw)) (ucast n) AXIDMA_DESC_CHUNK True w1 = (Some mm2s, w')"
    by (auto simp: build_rings_def Let_def split: prod.splits option.splits)
  have c: "0 < AXIDMA_DESC_CHUNK" "AXIDMA_DESC_CHUNK \<le> AXIDMA_DESC_LEN_MASK" by (simp_all add: consts_defs)
  have n: "unat (ucast n :: u64) < 2 ^ 58" using unat_u32_less [of n] by (simp add: unat_widen)
  note r1 = ring_build_some [OF b1 chunk(1) len] and r2 = ring_build_some [OF b2 c(1) n]
  have "stored (hist w') (desc_addr s2mm i) = stored (hist w1) (desc_addr s2mm i)"
    if "i < n_chunks (unat len) (unat chunk)" for i
    unfolding r2(3)
    by (rule stored_skip)
      (use halves_disjoint [OF r1(7) r2(7) that] in \<open>auto simp: desc_addr_def r1(2) r2(2) built_ring_def dest: sym\<close>)
  then have h1: "holds_ring (hist w') s2mm chunk False len (region_phys (hw_rx hw))"
    using r1(9) by (simp add: holds_ring_def)
  show "dma_walk (hist w') s2mm (nat (r_count s2mm)) (r_phys s2mm) (ring_tail s2mm) =
      Some (ring_segs (region_phys (hw_rx hw)) (unat len) (unat chunk) False)"
    by (rule held_ring_walk [OF h1 r1(2) chunk r1(5,6,8)])
  show "dma_walk (hist w') mm2s (nat (r_count mm2s)) (r_phys mm2s) (ring_tail mm2s) =
      Some (ring_segs (region_phys (hw_tx hw)) (unat n) (unat AXIDMA_DESC_CHUNK) True)"
    using held_ring_walk [OF r2(9) r2(2) c r2(5,6,8)] by (simp add: unat_widen)
  show "0 < r_count s2mm" "0 < r_count mm2s" using r1(2,6) r2(2,6) by (simp_all add: built_ring_def)
qed

lemma stored_emits:
  assumes "emits P w w'" and "\<And>e a vs. P e \<Longrightarrow> e \<noteq> EvStore a vs"
  shows "stored (hist w') = stored (hist w)"
proof -
  from assms obtain es where "hist w' = es @ hist w" "list_all (\<lambda>e. \<forall>a vs. e \<noteq> EvStore a vs) es"
    by (auto simp: emits_def list_all_iff)
  then show ?thesis by (auto simp: stored_app)
qed

text \<open>The cache hand-over of the descriptors, as the last attribute writes before the start.\<close>

definition handed_over :: "event list \<Rightarrow> udmabuf \<Rightarrow> string \<Rightarrow> size_t \<Rightarrow> size_t \<Rightarrow> size_t \<Rightarrow> bool" where
  "handed_over h b kick dir off len \<longleftrightarrow>
     take 4 (attrs_written h) = [(attr_path (b_name b) kick, 1), (attr_path (b_name b) ''sync_direction'', dir),
       (attr_path (b_name b) ''sync_size'', len), (attr_path (b_name b) ''sync_offset'', off)]"

lemma attrs_app: "list_all (\<lambda>e. \<not> is_attr e) es \<Longrightarrow> attrs_written (es @ h) = attrs_written h"
proof (induction es)
  case (Cons e es)
  then show ?case by (cases e) auto
qed simp

text \<open>
  The descriptors, the registers and the hand-overs when a transfer has been started: each
  engine follows the chunks of exactly its buffer.
\<close>

lemma transferred_engines:
  assumes t: "transferred hw req pct (s2mm, mm2s) (len, chunk) w w'"
    and chunk: "0 < chunk" "chunk \<le> AXIDMA_DESC_LEN_MASK" and len: "unat len < 2 ^ 58"
  shows "engine_walk (hist w') (hw_dma hw) AXIDMA_S2MM s2mm =
      Some (ring_segs (region_phys (hw_rx hw)) (unat len) (unat chunk) False)"
    and "engine_walk (hist w') (hw_dma hw) AXIDMA_MM2S mm2s =
      Some (ring_segs (region_phys (hw_tx hw)) (unat (h_payload_len req)) (unat AXIDMA_DESC_CHUNK) True)"
proof -
  from t obtain w1 w2 w3 w4 w5 es where
    b: "build_rings hw len chunk (h_payload_len req) w1 = (Some (s2mm, mm2s), w2)" and
    s: "udmabuf_sync_for_device (hw_desc_buf hw) 0 (b_size (hw_desc_buf hw)) w2 = (0, w3)" and
    es: "list_all idle_event es" "w4 = w3\<lparr>hist := es @ hist w3\<rparr>" and
    st: "axidma_sg_start (hw_dma hw) AXIDMA_S2MM s2mm w4 = (0, w5)" "axidma_sg_start (hw_dma hw) AXIDMA_MM2S mm2s w5 = (0, w')"
    unfolding transferred_def by auto
  note k = build_rings_walks [OF b chunk len]
  have "stored (hist w4) a = stored (hist w2) a" for a
  proof -
    have "hist w4 = es @ hist w3" using es(2) by simp
    moreover have "list_all (\<lambda>e. \<forall>a vs. e \<noteq> EvStore a vs) es"
      using es(1) by (rule list.pred_mono_strong) (simp add: idle_event_def)
    ultimately have "stored (hist w4) a = stored (hist w3) a" by (simp add: stored_app)
    also have "stored (hist w3) = stored (hist w2)"
      by (rule stored_emits [OF to_device.sync_emits [OF s]]) auto
    finally show ?thesis .
  qed
  then have walks: "dma_walk (hist w4) ring n' cur tail = dma_walk (hist w2) ring n' cur tail" for ring n' cur tail
    by (rule dma_walk_cong)
  from both_started [OF st(1) k(3) st(2) k(4)] k(1,2) walks
  show "engine_walk (hist w') (hw_dma hw) AXIDMA_S2MM s2mm =
      Some (ring_segs (region_phys (hw_rx hw)) (unat len) (unat chunk) False)"
    "engine_walk (hist w') (hw_dma hw) AXIDMA_MM2S mm2s =
      Some (ring_segs (region_phys (hw_tx hw)) (unat (h_payload_len req)) (unat AXIDMA_DESC_CHUNK) True)"
    by auto
qed

lemma handed_over_app: "list_all (\<lambda>e. \<not> is_attr e) es \<Longrightarrow> handed_over (es @ h) b kick dir off n = handed_over h b kick dir off n"
  by (simp add: handed_over_def attrs_app)

lemma handed_over_emits:
  assumes "handed_over (hist w) b kick dir off n" and "emits P w w'" and "\<And>e. P e \<Longrightarrow> \<not> is_attr e"
  shows "handed_over (hist w') b kick dir off n"
proof -
  from assms(2,3) obtain es where "hist w' = es @ hist w" "list_all (\<lambda>e. \<not> is_attr e) es"
    by (auto simp: emits_def list_all_iff)
  with assms(1) show ?thesis by (simp add: handed_over_app)
qed

lemma is_write_not_attr: "is_write fd e \<Longrightarrow> \<not> is_attr e"
  by (cases e) simp_all

lemma transferred_handed_over:
  assumes "transferred hw req pct (s2mm, mm2s) (len, chunk) w w'" and "0 < r_count s2mm" "0 < r_count mm2s"
  shows "handed_over (hist w') (hw_desc_buf hw) ''sync_for_device'' 1 0 (b_size (hw_desc_buf hw))"
proof -
  from assms(1) obtain w2 w3 w4 w5 es where
    s: "udmabuf_sync_for_device (hw_desc_buf hw) 0 (b_size (hw_desc_buf hw)) w2 = (0, w3)" and
    es: "list_all idle_event es" "w4 = w3\<lparr>hist := es @ hist w3\<rparr>" and
    st: "axidma_sg_start (hw_dma hw) AXIDMA_S2MM s2mm w4 = (0, w5)" "axidma_sg_start (hw_dma hw) AXIDMA_MM2S mm2s w5 = (0, w')"
    unfolding transferred_def by auto
  have "handed_over (hist w3) (hw_desc_buf hw) ''sync_for_device'' 1 0 (b_size (hw_desc_buf hw))"
    using to_device.sync_written [OF s] by (simp add: handed_over_def)
  moreover have "list_all (\<lambda>e. \<not> is_attr e) es"
    using es(1) by (rule list.pred_mono_strong) (simp add: idle_event_def)
  ultimately have "handed_over (hist w4) (hw_desc_buf hw) ''sync_for_device'' 1 0 (b_size (hw_desc_buf hw))"
    using es(2) by (simp add: handed_over_app)
  moreover obtain a where "hist w' = a @ hist w4" "list_all (\<lambda>e. \<not> is_attr e) a"
    using st sg_start_events [OF assms(2), of "hw_dma hw" AXIDMA_S2MM w4]
      sg_start_events [OF assms(3), of "hw_dma hw" AXIDMA_MM2S w5] by auto
  ultimately show ?thesis by (simp add: handed_over_app)
qed

text \<open>The core was configured for the image on the way.\<close>

definition configured :: "hw \<Rightarrow> ojls_hdr \<Rightarrow> world \<Rightarrow> world \<Rightarrow> bool" where
  "configured hw req w w' \<longleftrightarrow>
     (\<exists>a b. hist w' = a @ dims_events hw (h_width req) (h_height req) @ b @ hist w)"

lemma transferred_configured:
  assumes "transferred hw req pct (s2mm, mm2s) (len, chunk) w w'"
  shows "configured hw req w w'"
proof -
  from assms obtain w1 w2 w3 w4 w5 es where
    p: "any_fails [hw_configure hw (h_width req) (h_height req), io_of (gate_set hw pct),
         io_of (udmabuf_sync_for_device (rg_b (hw_tx hw)) (rg_off (hw_tx hw)) (h_payload_len req)),
         axidma_reset (hw_dma hw)] w = Some (False, w1)" and
    b: "build_rings hw len chunk (h_payload_len req) w1 = (Some (s2mm, mm2s), w2)" and
    s: "udmabuf_sync_for_device (hw_desc_buf hw) 0 (b_size (hw_desc_buf hw)) w2 = (0, w3)" and
    es: "w4 = w3\<lparr>hist := es @ hist w3\<rparr>" and
    st: "axidma_sg_start (hw_dma hw) AXIDMA_S2MM s2mm w4 = (0, w5)" "axidma_sg_start (hw_dma hw) AXIDMA_MM2S mm2s w5 = (0, w')"
    unfolding transferred_def by auto
  from p obtain wa wb wc where
    c: "hw_configure hw (h_width req) (h_height req) w = Some (0, wa)" "gate_set hw pct wa = (0, wb)"
      "udmabuf_sync_for_device (rg_b (hw_tx hw)) (rg_off (hw_tx hw)) (h_payload_len req) wb = (0, wc)"
      "axidma_reset (hw_dma hw) wc = Some (0, w1)"
    by (auto simp: io_of_def split: Option.bind_splits if_splits prod.splits)
  have e: "emits (hw_event 0) wa w3"
    by (intro to_device_after [OF s] build_rings_after [OF b] axidma_reset_after [OF c(4)] to_device_after [OF c(3)]
        gate_set_after [OF c(2)] emits_refl)
  have "emits (hw_event 0) w4 w'"
    by (intro sg_start_after [OF st(2)] sg_start_after [OF st(1)] emits_refl)
  with e es obtain x y where "hist w' = x @ es @ y @ hist wa" by (auto simp: emits_def)
  moreover from hw_configure_done [OF c(1)] obtain st z t n where
    "hist wa = EvRegRead (reg_addr (hw_regs hw) OJLS_REG_STATUS) st # z @ dims_events hw (h_width req) (h_height req) @ EvClock t n # hist w"
    by blast
  ultimately have "hist w' = (x @ es @ y @ EvRegRead (reg_addr (hw_regs hw) OJLS_REG_STATUS) st # z) @
      dims_events hw (h_width req) (h_height req) @ [EvClock t n] @ hist w" by simp
  then show ?thesis unfolding configured_def by blast
qed

lemma encode_reply_sent:
  assumes "encode_reply fd hw req s2mm w = Some (0, w')"
  shows "\<exists>n image. n = fst (axidma_ring_bytes s2mm (snd (now_us w))) \<and>
    handed_over (hist w') (rg_b (hw_rx hw)) ''sync_for_cpu'' 2 (rg_off (hw_rx hw)) n \<and>
    length image = unat n \<and> sent fd w' = sent fd (snd (udmabuf_sync_for_cpu (rg_b (hw_rx hw)) (rg_off (hw_rx hw)) n
       (snd (axidma_ring_bytes s2mm (snd (now_us w)))))) @ hdr_bytes (encode_resp req n) @ image"
proof -
  obtain t w1 where 1: "now_us w = (t, w1)" by force
  obtain n w2 where 2: "axidma_ring_bytes s2mm w1 = (n, w2)" by force
  obtain sy w3 where 3: "udmabuf_sync_for_cpu (rg_b (hw_rx hw)) (rg_off (hw_rx hw)) n w2 = (sy, w3)" by force
  let ?Ms = "[is_msg (hdr_bytes (encode_resp req n)), len_msg (unat n)]"
  have ne: "st_int OJLS_ST_HW_ERROR \<noteq> 0" by (simp add: st_int_def consts_defs)
  from assms 1 2 3 ne have sy: "sy = 0" and
    a: "any_fails [send_full fd (Local (hdr_bytes (encode_resp req n))) OJLS_PROTO_HDR_LEN,
        send_full fd (Mem (region_mem (hw_rx hw))) (unat n)] w3 = Some (False, w')"
    by (auto simp: encode_reply_def split: if_splits Option.bind_splits simp del: any_fails.simps)
  have "list_all2 (sends fd) ?Ms [send_full fd (Local (hdr_bytes (encode_resp req n))) OJLS_PROTO_HDR_LEN,
      send_full fd (Mem (region_mem (hw_rx hw))) (unat n)]" by (simp add: sends_hdr sends_mem)
  from sends_any_fails [OF this _ a] obtain bs where e: "emits (is_write fd) w3 w'" and
    bs: "sent fd w' = sent fd w3 @ bs" "cat_msgs ?Ms bs" by auto
  then obtain image where "bs = hdr_bytes (encode_resp req n) @ image" "length image = unat n"
    by (auto simp: is_msg_def len_msg_def)
  moreover have "handed_over (hist w3) (rg_b (hw_rx hw)) ''sync_for_cpu'' 2 (rg_off (hw_rx hw)) n"
    using to_cpu.sync_written [OF 3 [unfolded sy]] by (simp add: handed_over_def)
  then have "handed_over (hist w') (rg_b (hw_rx hw)) ''sync_for_cpu'' 2 (rg_off (hw_rx hw)) n"
    using e is_write_not_attr by (rule handed_over_emits)
  ultimately show ?thesis using 1 2 3 bs(1) by auto
qed

lemma encode_success_facts:
  assumes "encode_and_reply fd hw req ms w = Some (0, w')" and "fd \<noteq> u_fd (dma_uio (hw_dma hw))"
  shows "\<exists>u v s2mm mm2s n image. configured hw req w u \<and>
    engine_walk (hist u) (hw_dma hw) AXIDMA_S2MM s2mm =
      Some (ring_segs (region_phys (hw_rx hw)) (unat (rg_size (hw_rx hw))) (unat AXIDMA_DESC_CHUNK) False) \<and>
    engine_walk (hist u) (hw_dma hw) AXIDMA_MM2S mm2s =
      Some (ring_segs (region_phys (hw_tx hw)) (unat (h_payload_len req)) (unat AXIDMA_DESC_CHUNK) True) \<and>
    handed_over (hist u) (hw_desc_buf hw) ''sync_for_device'' 1 0 (b_size (hw_desc_buf hw)) \<and>
    axidma_wait (hw_dma hw) AXIDMA_S2MM s2mm ms u = Some (0, v) \<and> frame_seen (hw_dma hw) s2mm v \<and>
    n = fst (axidma_ring_bytes s2mm (snd (now_us v))) \<and>
    handed_over (hist w') (rg_b (hw_rx hw)) ''sync_for_cpu'' 2 (rg_off (hw_rx hw)) n \<and>
    length image = unat n \<and> sent fd w' = sent fd w @ hdr_bytes (encode_resp req n) @ image"
  using assms(1)
proof (cases rule: encode_and_reply_cases)
  case (failed e)
  then show ?thesis by (auto simp: st_int_def consts_defs)
next
  case (replied rings u v)
  obtain s2mm mm2s where rings: "rings = (s2mm, mm2s)" by force
  have c: "0 < AXIDMA_DESC_CHUNK" "AXIDMA_DESC_CHUNK \<le> AXIDMA_DESC_LEN_MASK" by (simp_all add: consts_defs)
  have n: "unat (ucast (rg_size (hw_rx hw)) :: u64) < 2 ^ 58"
    using unat_u32_less [of "rg_size (hw_rx hw)"] by (simp add: unat_widen)
  note t = replied(1) [unfolded rings] and wt = replied(2) [unfolded rings fst_conv]
  from t obtain w1 w2 where b: "build_rings hw (ucast (rg_size (hw_rx hw))) AXIDMA_DESC_CHUNK (h_payload_len req) w1 = (Some (s2mm, mm2s), w2)"
    unfolding transferred_def by auto
  note cnt = build_rings_walks(3,4) [OF b c n]
  from encode_reply_sent [OF replied(4) [unfolded rings fst_conv]] obtain m image where
    m: "m = fst (axidma_ring_bytes s2mm (snd (now_us v)))"
    "handed_over (hist w') (rg_b (hw_rx hw)) ''sync_for_cpu'' 2 (rg_off (hw_rx hw)) m" "length image = unat m"
    "sent fd w' = sent fd (snd (udmabuf_sync_for_cpu (rg_b (hw_rx hw)) (rg_off (hw_rx hw)) m
       (snd (axidma_ring_bytes s2mm (snd (now_us v)))))) @ hdr_bytes (encode_resp req m) @ image" by blast
  have "emits (hw_event (u_fd (dma_uio (hw_dma hw)))) w (snd (udmabuf_sync_for_cpu (rg_b (hw_rx hw)) (rg_off (hw_rx hw)) m
       (snd (axidma_ring_bytes s2mm (snd (now_us v))))))"
    by (rule to_cpu_after [OF surjective_pairing], rule ring_bytes_after [OF surjective_pairing],
        rule now_us_after [OF surjective_pairing]) (rule replied(3))
  from hw_emits_wire(1) [OF this assms(2)] m(4) have "sent fd w' = sent fd w @ hdr_bytes (encode_resp req m) @ image" by simp
  with transferred_engines [OF t c n] transferred_handed_over [OF t cnt] transferred_configured [OF t]
    wt wait_frame_seen [OF wt] m(1-3)
  show ?thesis by (simp only: unat_widen) blast
qed

section \<open>A board to run on\<close>

text \<open>
  A board with a core for 8-bit images up to 64x64, a ready gate and three small buffers. Its
  registers for the dimensions and the threshold hold what was written; every descriptor
  reads as complete, with the end of a frame and \<open>out\<close> bytes.
\<close>

definition sample_buf :: "addr \<Rightarrow> size_t \<Rightarrow> string \<Rightarrow> udmabuf" where
  "sample_buf a n nm = \<lparr>b_fd = 9, b_mem = a, b_size = n, b_phys = ucast a, b_name = nm\<rparr>"

definition sample_uio :: "int \<Rightarrow> addr \<Rightarrow> uio" where
  "sample_uio fd a = \<lparr>u_fd = fd, u_regs = a, u_map_size = 0x10000, u_irq_ok = True, u_dev = ''/dev/uio0'', u_name = ''x''\<rparr>"

definition sample_hw :: hw where
  "sample_hw =
     (let tx = sample_buf 0x100000 0x1000 ''tx''; rx = sample_buf 0x200000 0x8000 ''rx''
      in \<lparr>hw_regs = sample_uio 6 0x10000, hw_gate = sample_uio 7 0x20000, hw_dma = \<lparr>dma_uio = sample_uio 8 0x30000\<rparr>,
          hw_tx_buf = tx, hw_rx_buf = rx, hw_desc_buf = sample_buf 0x300000 0x8000 ''desc'',
          hw_tx = \<lparr>rg_b = tx, rg_off = 0, rg_size = 0x1000\<rparr>, hw_rx = \<lparr>rg_b = rx, rg_off = 0, rg_size = 0x8000\<rparr>,
          hw_bitness = 8, hw_max_width = 64, hw_max_height = 64\<rparr>)"

definition board_env :: "u8 list \<Rightarrow> u32 \<Rightarrow> env" where
  "board_env input out = (sample_env input)
     \<lparr>env_reg := (\<lambda>h a. if a = 0x10010 \<or> a = 0x10014 \<or> a = 0x20000 then reg_written h a else 0),
      env_word := (\<lambda>h a. 0x8C000000 OR out)\<rparr>"

definition sample_image_req :: ojls_hdr where
  "sample_image_req = \<lparr>h_magic = OJLS_PROTO_MAGIC, h_version = 1, h_type = OJLS_MSG_ENCODE_REQ, h_status = 0,
     h_width = 4, h_height = 2, h_bitness = 8, h_ready_pct = 0, h_payload_len = 8\<rparr>"

end
