(* ===== verification/OJLS_Board.thy ===== *)
theory OJLS_Board
  imports OJLS_Transfer
begin

text \<open>
  The handlers on a board that works: registers that read back what was written, a core and a
  DMA engine that are not busy, sysfs files that can be written, and a transfer that has come
  to rest. On such a board the handlers of \<open>ojls_server.c\<close> succeed, and what they send is
  determined by the descriptors' status words and the rx memory alone.
\<close>

unbundle bit_operations_syntax

section \<open>A working board\<close>

definition reads_back :: "env \<Rightarrow> addr \<Rightarrow> bool" where
  "reads_back E a \<longleftrightarrow> (\<forall>h. env_reg E h a = reg_written h a)"

definition reads_clear :: "env \<Rightarrow> addr \<Rightarrow> u32 \<Rightarrow> bool" where
  "reads_clear E a m \<longleftrightarrow> (\<forall>h. env_reg E h a AND m = 0)"

definition sysfs_works :: "env \<Rightarrow> bool" where
  "sysfs_works E \<longleftrightarrow> (\<forall>h path mode. env_fopen E h path mode \<and> env_fprintf E h path \<and> env_fclose E h path)"

definition sock_works :: "env \<Rightarrow> int \<Rightarrow> bool" where
  "sock_works E fd \<longleftrightarrow> (\<forall>h bs. env_write E h fd bs = WCount (length bs))"

definition working_board :: "env \<Rightarrow> hw \<Rightarrow> bool" where
  "working_board E hw \<longleftrightarrow>
     reads_back E (reg_addr (hw_regs hw) OJLS_REG_WIDTH) \<and> reads_back E (reg_addr (hw_regs hw) OJLS_REG_HEIGHT) \<and>
     reads_back E (reg_addr (hw_gate hw) READY_GATE_THRESH) \<and>
     reads_clear E (reg_addr (hw_regs hw) OJLS_REG_STATUS) OJLS_STATUS_BUSY \<and>
     reads_clear E (reg_addr (dma_uio (hw_dma hw)) (AXIDMA_CR AXIDMA_MM2S)) AXIDMA_CR_RESET \<and>
     reads_clear E (reg_addr (dma_uio (hw_dma hw)) (AXIDMA_CR AXIDMA_S2MM)) AXIDMA_CR_RESET \<and>
     reads_clear E (reg_addr (dma_uio (hw_dma hw)) (AXIDMA_SR AXIDMA_S2MM)) AXIDMA_SR_ANY_ERR \<and>
     sysfs_works E"

text \<open>The status words of the descriptors at \<open>a\<close> and the bytes of the memory at \<open>p\<close>, at rest.\<close>

definition descs_read :: "env \<Rightarrow> addr \<Rightarrow> u32 list \<Rightarrow> bool" where
  "descs_read E a sts \<longleftrightarrow> (\<forall>h i. i < length sts \<longrightarrow> env_word E h (a + of_nat (i * desc_size) + 0x1C) = sts ! i)"

definition mem_reads :: "env \<Rightarrow> addr \<Rightarrow> u8 list \<Rightarrow> bool" where
  "mem_reads E p bs \<longleftrightarrow> (\<forall>h i. i < length bs \<longrightarrow> env_byte E h (p + of_nat i) = bs ! i)"

section \<open>The operations succeed\<close>

lemma attr_write_ok: "sysfs_works (world_env w) \<Longrightarrow> fst (attr_write name attr v w) = 0"
  by (simp add: sysfs_works_def attr_write_def sys_defs Let_def)

lemma attr_write_env: "world_env (snd (attr_write name attr v w)) = world_env w"
  by (simp add: attr_write_def sys_defs Let_def)

lemma sync_ok: "sysfs_works (world_env w) \<Longrightarrow> fst (udmabuf_sync b off n dir kick w) = 0"
  by (simp add: udmabuf_sync_def attr_write_ok attr_write_env split_beta Let_def)

lemma to_device_ok:
  assumes "sysfs_works (world_env w)"
  shows "\<exists>w'. udmabuf_sync_for_device b off n w = (0, w') \<and> world_env w' = world_env w"
proof -
  obtain r w' where r: "udmabuf_sync_for_device b off n w = (r, w')" by force
  with to_device.sync_env [OF r] sync_ok [OF assms, of b off n 1 "''sync_for_device''"] show ?thesis
    by (simp add: udmabuf_sync_for_device_def)
qed

lemma to_cpu_ok:
  assumes "sysfs_works (world_env w)"
  shows "\<exists>w'. udmabuf_sync_for_cpu b off n w = (0, w') \<and> world_env w' = world_env w"
proof -
  obtain r w' where r: "udmabuf_sync_for_cpu b off n w = (r, w')" by force
  with to_cpu.sync_env [OF r] sync_ok [OF assms, of b off n 2 "''sync_for_cpu''"] show ?thesis
    by (simp add: udmabuf_sync_for_cpu_def)
qed

lemma send_full_ok:
  assumes "sock_works (world_env w) fd" and "src_fits buf n"
  shows "\<exists>w'. send_full fd buf n w = Some (0, w') \<and> world_env w' = world_env w"
proof -
  let ?bs = "src_bytes buf 0 n w"
  let ?w1 = "log (EvWrite fd ?bs (WCount n)) w"
  have len: "length ?bs = n" using length_src_bytes [OF assms(2), of 0 w] by simp
  have done_: "send_body fd buf n n u = Some (Inr 0, u)" for u by (simp add: send_body_def)
  show ?thesis
  proof (cases "n = 0")
    case True
    with done_ [of w] show ?thesis by (simp add: send_full_def c_loop_Inr)
  next
    case False
    then have "send_body fd buf n 0 w = Some (Inl n, ?w1)"
      using assms(1) len by (simp add: send_body_def sys_write_def sock_works_def clip_write_def Let_def)
    with done_ [of ?w1] show ?thesis by (simp add: send_full_def c_loop_Inl c_loop_Inr)
  qed
qed

lemma reset_ok:
  assumes "working_board (world_env w) hw"
  shows "\<exists>w'. axidma_reset (hw_dma hw) w = Some (0, w') \<and> world_env w' = world_env w"
proof -
  obtain t u where t: "now_ms w = (t, u)" by force
  let ?v = "uio_wr (dma_uio (hw_dma hw)) (AXIDMA_CR AXIDMA_S2MM) AXIDMA_CR_RESET
      (uio_wr (dma_uio (hw_dma hw)) (AXIDMA_CR AXIDMA_MM2S) AXIDMA_CR_RESET u)"
  have env: "world_env ?v = world_env w" using now_ms_log [OF t] by (simp add: log_simps)
  with assms have "\<exists>x. reset_body (hw_dma hw) (t + 100) () ?v = Some (Inr 0, x) \<and> world_env x = world_env w"
    by (simp add: reset_body_def reset_busy_def uio_rd_hist working_board_def reads_clear_def Let_def)
  with t show ?thesis by (auto simp: axidma_reset_def c_loop_Inr)
qed

lemma dims_addrs_differ: "reg_addr u OJLS_REG_WIDTH \<noteq> reg_addr u OJLS_REG_HEIGHT"
  by (simp add: reg_addr_def consts_defs)

lemma configure_ok:
  assumes "working_board (world_env w) hw"
  shows "\<exists>w'. hw_configure hw wd ht w = Some (0, w') \<and> world_env w' = world_env w"
proof -
  obtain t w1 where t: "now_us w = (t, w1)" by force
  then have env: "world_env w1 = world_env w" by (auto dest: now_us_log)
  let ?w3 = "uio_wr (hw_regs hw) OJLS_REG_HEIGHT (ucast ht) (uio_wr (hw_regs hw) OJLS_REG_WIDTH (ucast wd) w1)"
  obtain b w4 where d: "dims_clamped hw wd ht ?w3 = (b, w4)" by force
  with assms env dims_addrs_differ have b: "\<not> b" and env4: "world_env w4 = world_env w"
    by (auto simp: dims_clamped_def log_simps Let_def working_board_def reads_back_def split: if_splits)
  have "\<exists>x. busy_body hw (t + 100000) () (uio_wr (hw_regs hw) OJLS_REG_CTRL OJLS_CTRL_APPLY w4) = Some (Inr 0, x) \<and>
      world_env x = world_env w"
    using assms env4 by (simp add: busy_body_def log_simps working_board_def reads_clear_def Let_def)
  with t b d show ?thesis by (auto simp: hw_configure_def c_loop_Inr)
qed

lemma gate_set_ok:
  assumes "working_board (world_env w) hw"
  shows "\<exists>w'. gate_set hw pct w = (0, w') \<and> world_env w' = world_env w"
  using assms by (simp add: gate_set_def log_simps Let_def working_board_def reads_back_def)

lemma prepare_ok:
  assumes wb: "working_board (world_env w) hw"
  shows "\<exists>w1. any_fails [hw_configure hw wd ht, io_of (gate_set hw pct),
      io_of (udmabuf_sync_for_device b off n), axidma_reset (hw_dma hw)] w = Some (False, w1) \<and> world_env w1 = world_env w"
proof -
  from configure_ok [OF wb] obtain wa where a: "hw_configure hw wd ht w = Some (0, wa)" "world_env wa = world_env w" by blast
  from gate_set_ok [of wa] a wb obtain wb' where b: "gate_set hw pct wa = (0, wb')" "world_env wb' = world_env w" by fastforce
  have "sysfs_works (world_env wb')" using assms b(2) by (simp add: working_board_def)
  from to_device_ok [OF this] b obtain wc where c: "udmabuf_sync_for_device b off n wb' = (0, wc)" "world_env wc = world_env w"
    by fastforce
  from reset_ok [of wc hw] c assms obtain wd' where "axidma_reset (hw_dma hw) wc = Some (0, wd')" "world_env wd' = world_env w"
    by fastforce
  with a b c show ?thesis by (simp add: io_of_def)
qed

section \<open>The rings, the start and the wait\<close>

definition rings_fit :: "hw \<Rightarrow> nat \<Rightarrow> u32 \<Rightarrow> nat \<Rightarrow> bool" where
  "rings_fit hw len chunk n \<longleftrightarrow>
     ring_fits (hw_desc_buf hw) 0 (b_size (hw_desc_buf hw) div 2) len chunk \<and>
     ring_fits (hw_desc_buf hw) (b_size (hw_desc_buf hw) div 2)
       (b_size (hw_desc_buf hw) - b_size (hw_desc_buf hw) div 2) n AXIDMA_DESC_CHUNK"

definition rx_ring :: "hw \<Rightarrow> nat \<Rightarrow> u32 \<Rightarrow> axidma_ring" where
  "rx_ring hw len chunk = built_ring (hw_desc_buf hw) 0 len chunk"

definition tx_ring :: "hw \<Rightarrow> nat \<Rightarrow> axidma_ring" where
  "tx_ring hw n = built_ring (hw_desc_buf hw) (b_size (hw_desc_buf hw) div 2) n AXIDMA_DESC_CHUNK"

lemma build_rings_exact:
  assumes "0 < chunk" and "unat len < 2 ^ 58"
  shows "(\<exists>w'. build_rings hw len chunk n w = (Some (rx_ring hw (unat len) chunk, tx_ring hw (unat n)), w') \<and>
      world_env w' = world_env w) \<longleftrightarrow> rings_fit hw (unat len) chunk (unat n)"
    and "\<not> rings_fit hw (unat len) chunk (unat n) \<Longrightarrow> fst (build_rings hw len chunk n w) = None"
proof -
  have c: "0 < AXIDMA_DESC_CHUNK" by (simp add: consts_defs)
  have n: "unat (ucast n :: u64) < 2 ^ 58" using unat_u32_less [of n] by (simp add: unat_widen)
  note e = ring_build_exact [OF assms] ring_build_exact [OF c n]
  show "(\<exists>w'. build_rings hw len chunk n w = (Some (rx_ring hw (unat len) chunk, tx_ring hw (unat n)), w') \<and>
      world_env w' = world_env w) \<longleftrightarrow> rings_fit hw (unat len) chunk (unat n)"
    "\<not> rings_fit hw (unat len) chunk (unat n) \<Longrightarrow> fst (build_rings hw len chunk n w) = None"
    by (simp_all add: build_rings_def rings_fit_def e rx_ring_def tx_ring_def unat_widen Let_def)
qed

lemma ring_count_pos: "rings_fit hw len chunk n \<Longrightarrow> 0 < chunk \<Longrightarrow>
    0 < r_count (rx_ring hw len chunk) \<and> 0 < r_count (tx_ring hw n)"
  using n_chunks_bounds(1) [of "unat chunk" len] n_chunks_bounds(1) [of "unat AXIDMA_DESC_CHUNK" n]
  by (simp add: rings_fit_def ring_fits_def rx_ring_def tx_ring_def built_ring_def consts_defs word_less_nat_alt)

lemma start_ok:
  assumes "0 < r_count rx" and "0 < r_count tx"
  shows "\<exists>w'. any_fails [io_of (axidma_sg_start d AXIDMA_S2MM rx), io_of (axidma_sg_start d AXIDMA_MM2S tx)] w = Some (False, w') \<and>
    world_env w' = world_env w"
  by (simp add: io_of_def sg_start_events assms)

text \<open>Descriptors at rest, as the scans of the two waits and the collection of the lengths see them.\<close>

lemma rx_at_rest:
  "descs_read (world_env w) (b_mem (hw_desc_buf hw)) sts \<Longrightarrow> at_rest w (rx_ring hw len chunk) sts"
  by (simp add: descs_read_def at_rest_def status_addr_def desc_addr_def rx_ring_def built_ring_def)

lemma at_rest_emits: "at_rest w ring sts \<Longrightarrow> emits P w u \<Longrightarrow> at_rest u ring sts"
  unfolding at_rest_def emits_def by (metis append.assoc)

lemma wait_scan_rest:
  assumes "at_rest w ring sts" and "emits P w u" and "n + i = length sts"
    and "\<forall>st\<in>set (frame_of (drop i sts)). \<not> st_error st" and "\<exists>st\<in>set (drop i sts). st_eof st"
  shows "\<exists>u'. wait_scan ring n i u = (Some True, u')"
  using assms(2-5)
proof (induction n arbitrary: i u P)
  case (Suc n)
  then have i: "i < length sts" by simp
  have d: "drop i sts = sts ! i # drop (Suc i) sts" using i by (simp add: Cons_nth_drop_Suc)
  note l = at_rest_load [OF assms(1) Suc.prems(1) i]
  show ?case
  proof (cases "st_eof (sts ! i)")
    case True
    with Suc.prems(3) l d show ?thesis by (simp add: st_defs)
  next
    case False
    have "emits (\<lambda>_. True) w (log (EvLoad (status_addr ring i) (sts ! i)) u)"
      using Suc.prems(1) by (blast intro: emits_log emits_mono)
    moreover have "\<forall>st\<in>set (frame_of (drop (Suc i) sts)). \<not> st_error st" "\<exists>st\<in>set (drop (Suc i) sts). st_eof st"
      using Suc.prems(3,4) d False by simp_all
    ultimately obtain u' where "wait_scan ring n (Suc i) (log (EvLoad (status_addr ring i) (sts ! i)) u) = (Some True, u')"
      using Suc.IH [of "\<lambda>_. True" "log (EvLoad (status_addr ring i) (sts ! i)) u" "Suc i"] Suc.prems(2) by auto
    with Suc.prems(3) l d False show ?thesis by (simp add: st_defs)
  qed
qed simp

lemma packets_scan_rest:
  assumes "at_rest w ring sts" and "emits P w u" and "n + i = length sts"
    and "\<forall>st\<in>set sts. \<not> st_error st \<and> st_eof st"
  shows "\<exists>u'. packets_scan ring n i u = (True, u')"
  using assms(2,3)
proof (induction n arbitrary: i u P)
  case (Suc n)
  then have i: "i < length sts" by simp
  note l = at_rest_load [OF assms(1) Suc.prems(1) i]
  have "emits (\<lambda>_. True) w (log (EvLoad (status_addr ring i) (sts ! i)) u)"
    using Suc.prems(1) by (blast intro: emits_log emits_mono)
  then obtain u' where "packets_scan ring n (Suc i) (log (EvLoad (status_addr ring i) (sts ! i)) u) = (True, u')"
    using Suc.IH [of "\<lambda>_. True" "log (EvLoad (status_addr ring i) (sts ! i)) u" "Suc i"] Suc.prems(2) by auto
  with assms(4) i l show ?case by (simp add: st_defs)
qed simp

lemma closed_lens_rest:
  assumes "at_rest w ring sts" and "emits P w u" and "n + i = length sts" and "\<forall>st\<in>set sts. st_eof st"
  shows "\<exists>u'. closed_lens ring n i u = (map st_len (drop i sts), u')"
  using assms(2,3)
proof (induction n arbitrary: i u P)
  case (Suc n)
  then have i: "i < length sts" by simp
  have d: "drop i sts = sts ! i # drop (Suc i) sts" using i by (simp add: Cons_nth_drop_Suc)
  note l = at_rest_load [OF assms(1) Suc.prems(1) i]
  have "emits (\<lambda>_. True) w (log (EvLoad (status_addr ring i) (sts ! i)) u)"
    using Suc.prems(1) by (blast intro: emits_log emits_mono)
  then obtain u' where "closed_lens ring n (Suc i) (log (EvLoad (status_addr ring i) (sts ! i)) u) = (map st_len (drop (Suc i) sts), u')"
    using Suc.IH [of "\<lambda>_. True" "log (EvLoad (status_addr ring i) (sts ! i)) u" "Suc i"] Suc.prems(2) by auto
  with assms(4) i l d show ?case by (simp add: st_eof_def st_len_def)
qed simp

lemma wait_ok:
  assumes wb: "working_board (world_env w) hw" and rest: "at_rest w ring sts" and len: "length sts = nat (r_count ring)"
    and sts: "\<forall>st\<in>set (frame_of sts). \<not> st_error st" "\<exists>st\<in>set sts. st_eof st"
  shows "\<exists>w'. axidma_wait (hw_dma hw) AXIDMA_S2MM ring ms w = Some (0, w')"
proof -
  obtain t w0 where t: "now_ms w = (t, w0)" by force
  obtain sr w1 where r: "uio_rd (dma_uio (hw_dma hw)) (AXIDMA_SR AXIDMA_S2MM) w0 = (sr, w1)" by force
  have e1: "emits (hw_event 0) w w1" by (intro uio_rd_after [OF r] now_ms_after [OF t] emits_refl)
  have sr: "sr AND AXIDMA_SR_ANY_ERR = 0"
    using r wb now_ms_log [OF t] by (auto simp: uio_rd_hist working_board_def reads_clear_def Let_def)
  have "sysfs_works (world_env w1)" using wb emits_env [OF e1] by (simp add: working_board_def)
  then obtain w2 where y: "udmabuf_sync_for_cpu (r_db ring) (r_off ring) (ring_nbytes ring) w1 = (0, w2)"
    using to_cpu_ok by blast
  have e2: "emits (hw_event 0) w w2" by (rule to_cpu_after [OF y e1])
  obtain w3 where "wait_scan ring (nat (r_count ring)) 0 w2 = (Some True, w3)"
    using wait_scan_rest [OF rest e2, of "nat (r_count ring)" 0] len sts by auto
  moreover obtain l w4 where "mem_load (status_addr ring (nat (r_count ring - 1))) w3 = (l, w4)" by force
  ultimately have "wait_body (hw_dma hw) AXIDMA_S2MM ring (t + ms) () w0 = Some (Inr 0, w4)"
    using r sr y by (simp add: wait_body_def)
  with t show ?thesis by (simp add: axidma_wait_def c_loop_Inr)
qed

lemma wait_packets_ok:
  assumes wb: "working_board (world_env w) hw" and rest: "at_rest w ring sts" and len: "length sts = nat (r_count ring)"
    and sts: "\<forall>st\<in>set sts. \<not> st_error st \<and> st_eof st \<and> st_done st" and pos: "0 < r_count ring"
  shows "\<exists>w'. axidma_wait_packets (hw_dma hw) ring ms w = Some (0, w')"
proof -
  obtain t w0 where t: "now_ms w = (t, w0)" by force
  obtain sr w1 where r: "uio_rd (dma_uio (hw_dma hw)) (AXIDMA_SR AXIDMA_S2MM) w0 = (sr, w1)" by force
  have e1: "emits (hw_event 0) w w1" by (intro uio_rd_after [OF r] now_ms_after [OF t] emits_refl)
  have sr: "sr AND AXIDMA_SR_ANY_ERR = 0"
    using r wb now_ms_log [OF t] by (auto simp: uio_rd_hist working_board_def reads_clear_def Let_def)
  have "sysfs_works (world_env w1)" using wb emits_env [OF e1] by (simp add: working_board_def)
  then obtain w2 where y: "udmabuf_sync_for_cpu (r_db ring) (r_off ring) (ring_nbytes ring) w1 = (0, w2)"
    using to_cpu_ok by blast
  have e2: "emits (hw_event 0) w w2" by (rule to_cpu_after [OF y e1])
  obtain w3 where c: "packets_scan ring (nat (r_count ring)) 0 w2 = (True, w3)"
    using packets_scan_rest [OF rest e2, of "nat (r_count ring)" 0] len sts by auto
  have e3: "emits (hw_event 0) w w3" by (rule packets_scan_after [OF c e2])
  have i: "nat (r_count ring - 1) < length sts" using len pos by simp
  then have "st_done (sts ! nat (r_count ring - 1))" using sts by simp
  with at_rest_load [OF rest e3 i] have "\<exists>w4. wait_packets_body (hw_dma hw) ring (t + ms) () w0 = Some (Inr 0, w4)"
    using r sr y c by (simp add: wait_packets_body_def st_done_def)
  with t show ?thesis by (auto simp: axidma_wait_packets_def c_loop_Inr)
qed

section \<open>What is sent\<close>

text \<open>\<open>puts E fd bs m\<close>: in the environment \<open>E\<close>, \<open>m\<close> succeeds and sends exactly \<open>bs\<close>.\<close>

definition puts :: "env \<Rightarrow> int \<Rightarrow> u8 list \<Rightarrow> int io \<Rightarrow> bool" where
  "puts E fd bs m \<longleftrightarrow> (\<forall>w. world_env w = E \<longrightarrow>
     (\<exists>w'. m w = Some (0, w') \<and> world_env w' = E \<and> sent fd w' = sent fd w @ bs))"

lemma puts_any_fails:
  "list_all2 (puts E fd) bss ms \<Longrightarrow> world_env w = E \<Longrightarrow>
     \<exists>w'. any_fails ms w = Some (False, w') \<and> world_env w' = E \<and> sent fd w' = sent fd w @ concat bss"
proof (induction bss ms arbitrary: w rule: list_all2_induct)
  case (Cons bs bss m ms)
  from Cons.hyps(1) Cons.prems obtain w1 where "m w = Some (0, w1)" "world_env w1 = E" "sent fd w1 = sent fd w @ bs"
    by (auto simp: puts_def)
  with Cons.IH [of w1] show ?case by auto
qed simp

lemma puts_send:
  assumes "sock_works E fd" and "src_fits buf n" and "\<And>w. world_env w = E \<Longrightarrow> holds w buf ds" and "length ds = n"
  shows "puts E fd ds (send_full fd buf n)"
  unfolding puts_def
proof (intro allI impI)
  fix w :: world
  assume w: "world_env w = E"
  with send_full_ok assms(1,2) obtain w' where s: "send_full fd buf n w = Some (0, w')" "world_env w' = E" by blast
  from srv.send_sent [OF assms(2) s(1)] assms(3) [OF w] assms(4) have "sent fd w' = sent fd w @ ds" by auto
  with s show "\<exists>w'. send_full fd buf n w = Some (0, w') \<and> world_env w' = E \<and> sent fd w' = sent fd w @ ds" by blast
qed

lemma puts_local: "sock_works E fd \<Longrightarrow> length bs = n \<Longrightarrow> puts E fd bs (send_full fd (Local bs) n)"
  by (rule puts_send) simp_all

lemma mem_reads_holds: "mem_reads E p ds \<Longrightarrow> world_env w = E \<Longrightarrow> holds w (Mem p) ds"
  by (simp add: mem_reads_def)

lemma puts_mem: "sock_works E fd \<Longrightarrow> mem_reads E p ds \<Longrightarrow> length ds = n \<Longrightarrow> puts E fd ds (send_full fd (Mem p) n)"
  by (rule puts_send) (simp_all add: mem_reads_def)

lemma mem_reads_drop:
  assumes "mem_reads E p bs"
  shows "mem_reads E (p + of_nat k) (drop k bs)"
  unfolding mem_reads_def
proof (intro allI impI)
  fix h i
  assume i: "i < length (drop k bs)"
  then have "k + i < length bs" by simp
  then have "env_byte E h (p + of_nat (k + i)) = bs ! (k + i)" by (rule assms [unfolded mem_reads_def, rule_format])
  with i show "env_byte E h (p + of_nat k + of_nat i) = drop k bs ! i" by (simp add: add.assoc)
qed

lemma mem_reads_take: "mem_reads E p bs \<Longrightarrow> mem_reads E p (take n bs)"
  by (simp add: mem_reads_def)

section \<open>One image\<close>

lemma encode_reply_ok:
  assumes sys: "sysfs_works (world_env w)" and sock: "sock_works (world_env w) fd"
    and rest: "at_rest w s2mm sts" and len: "length sts = nat (r_count s2mm)"
    and jls: "mem_reads (world_env w) (region_mem (hw_rx hw)) jls"
    and n: "sum_list (map st_len (frame_of sts)) = of_nat (length jls)" "length jls < 2 ^ 32"
  shows "\<exists>w'. encode_reply fd hw req s2mm w = Some (0, w') \<and>
    (fd \<noteq> u_fd (dma_uio (hw_dma hw)) \<longrightarrow> sent fd w' = sent fd w @ hdr_bytes (encode_resp req (of_nat (length jls))) @ jls)"
proof -
  obtain t w1 where 1: "now_us w = (t, w1)" by force
  obtain m w2 where 2: "axidma_ring_bytes s2mm w1 = (m, w2)" by force
  have e1: "emits (hw_event (u_fd (dma_uio (hw_dma hw)))) w w1" by (intro now_us_after [OF 1] emits_refl)
  have e2: "emits (hw_event (u_fd (dma_uio (hw_dma hw)))) w w2" by (rule ring_bytes_after [OF 2 e1])
  have "at_rest w1 s2mm sts" using rest e1 by (rule at_rest_emits)
  then have m: "m = of_nat (length jls)" using ring_bytes_rest [of w1 s2mm sts] len 2 n by simp
  obtain w3 where 3: "udmabuf_sync_for_cpu (rg_b (hw_rx hw)) (rg_off (hw_rx hw)) m w2 = (0, w3)"
    "world_env w3 = world_env w2"
    using to_cpu_ok [of w2 "rg_b (hw_rx hw)" "rg_off (hw_rx hw)" m] sys emits_env [OF e2] by auto
  have e3: "emits (hw_event (u_fd (dma_uio (hw_dma hw)))) w w3" by (rule to_cpu_after [OF 3(1) e2])
  have env: "world_env w3 = world_env w" using emits_env [OF e3] .
  let ?hdr = "hdr_bytes (encode_resp req m)"
  have "puts (world_env w) fd ?hdr (send_full fd (Local ?hdr) OJLS_PROTO_HDR_LEN)"
    "puts (world_env w) fd jls (send_full fd (Mem (region_mem (hw_rx hw))) (unat m))"
    using sock jls n(2) m by (auto intro!: puts_local puts_mem simp: consts_defs unat_of_nat_small)
  with env obtain w4 where "any_fails [send_full fd (Local ?hdr) OJLS_PROTO_HDR_LEN,
      send_full fd (Mem (region_mem (hw_rx hw))) (unat m)] w3 = Some (False, w4)" "sent fd w4 = sent fd w3 @ ?hdr @ jls"
    using puts_any_fails [of "world_env w" fd "[?hdr, jls]" "[send_full fd (Local ?hdr) OJLS_PROTO_HDR_LEN,
      send_full fd (Mem (region_mem (hw_rx hw))) (unat m)]" w3] by auto
  moreover have "fd \<noteq> u_fd (dma_uio (hw_dma hw)) \<Longrightarrow> sent fd w3 = sent fd w" using e3 by (rule hw_emits_wire)
  ultimately show ?thesis using 1 2 3 m by (auto simp: encode_reply_def simp del: any_fails.simps)
qed

text \<open>The part both handlers share: everything up to the started channels succeeds.\<close>

lemma transfer_starts:
  assumes wb: "working_board (world_env w) hw" and fit: "rings_fit hw (unat len) chunk (unat n)"
    and chunk: "0 < chunk" "unat len < 2 ^ 58"
  obtains w1 w2 w3 where "any_fails [hw_configure hw wd ht, io_of (gate_set hw pct),
       io_of (udmabuf_sync_for_device (rg_b (hw_tx hw)) (rg_off (hw_tx hw)) n), axidma_reset (hw_dma hw)] w = Some (False, w1)"
    and "build_rings hw len chunk n w1 = (Some (rx_ring hw (unat len) chunk, tx_ring hw (unat n)), w2)"
    and "udmabuf_sync_for_device (hw_desc_buf hw) 0 (b_size (hw_desc_buf hw)) w2 = (0, w3)"
    and "world_env w3 = world_env w"
proof -
  from prepare_ok [OF wb] obtain w1 where 1: "any_fails [hw_configure hw wd ht, io_of (gate_set hw pct),
       io_of (udmabuf_sync_for_device (rg_b (hw_tx hw)) (rg_off (hw_tx hw)) n), axidma_reset (hw_dma hw)] w = Some (False, w1)"
    "world_env w1 = world_env w" by blast
  from build_rings_exact(1) [OF chunk] fit obtain w2 where
    2: "build_rings hw len chunk n w1 = (Some (rx_ring hw (unat len) chunk, tx_ring hw (unat n)), w2)" "world_env w2 = world_env w1"
    by blast
  have "sysfs_works (world_env w2)" using 1(2) 2(2) wb by (simp add: working_board_def)
  from to_device_ok [OF this] 1(2) 2(2) obtain w3 where
    "udmabuf_sync_for_device (hw_desc_buf hw) 0 (b_size (hw_desc_buf hw)) w2 = (0, w3)" "world_env w3 = world_env w"
    by metis
  with 1(1) 2(1) show thesis by (rule that)
qed

text \<open>A frame that has come to rest: error-free up to the first end mark, with \<open>n\<close> bytes in all.\<close>

definition frame_of_bytes :: "u32 list \<Rightarrow> nat \<Rightarrow> bool" where
  "frame_of_bytes sts n \<longleftrightarrow> (\<forall>st\<in>set (frame_of sts). \<not> st_error st) \<and> (\<exists>st\<in>set sts. st_eof st) \<and>
     sum_list (map st_len (frame_of sts)) = of_nat n \<and> n < 2 ^ 32"

lemma encode_on_board:
  assumes board: "working_board (world_env w) hw" and sock: "sock_works (world_env w) fd" "fd \<noteq> u_fd (dma_uio (hw_dma hw))"
    and fit: "rings_fit hw (unat (rg_size (hw_rx hw))) AXIDMA_DESC_CHUNK (unat (h_payload_len req))"
    and descs: "descs_read (world_env w) (b_mem (hw_desc_buf hw)) sts"
      "length sts = n_chunks (unat (rg_size (hw_rx hw))) (unat AXIDMA_DESC_CHUNK)"
    and frame: "frame_of_bytes sts (length jls)"
    and rx: "mem_reads (world_env w) (region_mem (hw_rx hw)) jls"
  shows "\<exists>w'. encode_and_reply fd hw req ms w = Some (0, w') \<and>
    sent fd w' = sent fd w @ hdr_bytes (encode_resp req (of_nat (length jls))) @ jls"
proof -
  let ?n = "unat (rg_size (hw_rx hw))" and ?k = "u_fd (dma_uio (hw_dma hw))"
  let ?rx = "rx_ring hw ?n AXIDMA_DESC_CHUNK" and ?tx = "tx_ring hw (unat (h_payload_len req))"
  have n: "unat (ucast (rg_size (hw_rx hw)) :: u64) = ?n" by (simp add: unat_widen)
  have c: "0 < AXIDMA_DESC_CHUNK" by (simp add: consts_defs)
  have "unat (ucast (rg_size (hw_rx hw)) :: u64) < 2 ^ 58" using unat_u32_less [of "rg_size (hw_rx hw)"] by (simp add: unat_widen)
  from transfer_starts [OF board fit [folded n] c this, unfolded n] obtain w1 w2 w3 where
    1: "any_fails [hw_configure hw (h_width req) (h_height req), io_of (gate_set hw 100),
       io_of (udmabuf_sync_for_device (rg_b (hw_tx hw)) (rg_off (hw_tx hw)) (h_payload_len req)), axidma_reset (hw_dma hw)] w = Some (False, w1)" and
    2: "build_rings hw (ucast (rg_size (hw_rx hw))) AXIDMA_DESC_CHUNK (h_payload_len req) w1 = (Some (?rx, ?tx), w2)" and
    3: "udmabuf_sync_for_device (hw_desc_buf hw) 0 (b_size (hw_desc_buf hw)) w2 = (0, w3)" "world_env w3 = world_env w"
    by blast
  obtain t w4 where 4: "now_us w3 = (t, w4)" by force
  from start_ok [OF ring_count_pos [OF fit c, THEN conjunct1] ring_count_pos [OF fit c, THEN conjunct2]] obtain w5 where
    5: "any_fails [io_of (axidma_sg_start (hw_dma hw) AXIDMA_S2MM ?rx), io_of (axidma_sg_start (hw_dma hw) AXIDMA_MM2S ?tx)] w4 = Some (False, w5)"
    "world_env w5 = world_env w4" by blast
  have env5: "world_env w5 = world_env w" using 5(2) 3(2) now_us_log [OF 4] by simp
  have e5: "emits (hw_event ?k) w w5"
    by (intro start_after [OF 5(1)] now_us_after [OF 4] to_device_after [OF 3(1)] build_rings_after [OF 2]
        prepare_after [OF 1] emits_refl)
  have rest: "at_rest w5 ?rx sts" and len: "length sts = nat (r_count ?rx)"
    using descs env5 by (simp_all add: rx_at_rest) (simp add: rx_ring_def built_ring_def)
  from wait_ok [of w5 hw, OF _ rest len] board frame env5 obtain w6 where
    6: "axidma_wait (hw_dma hw) AXIDMA_S2MM ?rx ms w5 = Some (0, w6)" by (auto simp: frame_of_bytes_def)
  have e6: "emits (hw_event ?k) w5 w6" by (rule axidma_wait_after [OF 6 emits_refl])
  have env6: "world_env w6 = world_env w" using emits_env [OF e6] env5 by simp
  obtain w' where "encode_reply fd hw req ?rx w6 = Some (0, w')"
    "sent fd w' = sent fd w6 @ hdr_bytes (encode_resp req (of_nat (length jls))) @ jls"
    using encode_reply_ok [of w6 fd ?rx sts hw jls req] at_rest_emits [OF rest e6] len env6 board sock rx frame
    by (auto simp: working_board_def frame_of_bytes_def)
  moreover have "sent fd w6 = sent fd w" using hw_emits_wire(1) [OF emits_trans [OF e5 e6] sock(2)] .
  ultimately show ?thesis using 1 2 3(1) 4 5(1) 6
    by (simp add: encode_and_reply_def del: any_fails.simps)
qed

text \<open>The sample board works; its frame is three zero bytes.\<close>

lemma sample_regs:
  "reg_addr (hw_regs sample_hw) OJLS_REG_WIDTH = 0x10010" "reg_addr (hw_regs sample_hw) OJLS_REG_HEIGHT = 0x10014"
  "reg_addr (hw_gate sample_hw) READY_GATE_THRESH = 0x20000" "reg_addr (hw_regs sample_hw) OJLS_REG_STATUS = 0x1001C"
  "reg_addr (dma_uio (hw_dma sample_hw)) (AXIDMA_CR AXIDMA_MM2S) = 0x30000"
  "reg_addr (dma_uio (hw_dma sample_hw)) (AXIDMA_CR AXIDMA_S2MM) = 0x30030"
  "reg_addr (dma_uio (hw_dma sample_hw)) (AXIDMA_SR AXIDMA_S2MM) = 0x30034"
  by (simp_all add: sample_hw_def sample_uio_def reg_addr_def consts_defs Let_def)

lemma sample_board_works: "working_board (board_env input out) sample_hw"
  unfolding working_board_def reads_back_def reads_clear_def sysfs_works_def sample_regs
  by (simp add: board_env_def sample_env_def)

lemma sample_sock_works: "sock_works (board_env input out) fd"
  by (simp add: sock_works_def board_env_def sample_env_def)

lemma sample_mem: "mem_reads (board_env input out) p (replicate n 0)"
  by (simp add: mem_reads_def board_env_def sample_env_def)

lemma sample_descs: "descs_read (board_env input out) a (replicate n (0x8C000000 OR out))"
  by (simp add: descs_read_def board_env_def)

lemma sample_bufs:
  "hw_desc_buf sample_hw = sample_buf 0x300000 0x8000 ''desc''" "rg_size (hw_rx sample_hw) = 0x8000"
  "rg_size (hw_tx sample_hw) = 0x1000" "dma_uio (hw_dma sample_hw) = sample_uio 8 0x30000"
  by (simp_all add: sample_hw_def Let_def)

lemma sample_rings_fit: "rings_fit sample_hw (unat (rg_size (hw_rx sample_hw))) AXIDMA_DESC_CHUNK 8"
  unfolding rings_fit_def ring_fits_def sample_bufs
  by (simp add: sample_buf_def n_chunks_def consts_defs)

lemma sample_frame: "frame_of_bytes [0x8C000003] 3"
  by (simp add: frame_of_bytes_def st_defs st_len_def consts_defs)

lemma three_zeros: "replicate 3 (0 :: u8) = [0, 0, 0]"
  by (simp add: numeral_eq_Suc)

lemma sample_encode_premises:
  defines "w \<equiv> start_world (board_env [] 3)" and "hw \<equiv> sample_hw" and "req \<equiv> sample_image_req"
  shows "working_board (world_env w) hw" "sock_works (world_env w) 5" "5 \<noteq> u_fd (dma_uio (hw_dma hw))"
    "rings_fit hw (unat (rg_size (hw_rx hw))) AXIDMA_DESC_CHUNK (unat (h_payload_len req))"
    "descs_read (world_env w) (b_mem (hw_desc_buf hw)) [0x8C000003]"
    "length [0x8C000003 :: u32] = n_chunks (unat (rg_size (hw_rx hw))) (unat AXIDMA_DESC_CHUNK)"
    "frame_of_bytes [0x8C000003] (length [0, 0, 0 :: u8])" "mem_reads (world_env w) (region_mem (hw_rx hw)) [0, 0, 0]"
proof -
  have w: "world_env w = board_env [] 3" by (simp add: w_def start_world_def)
  show "working_board (world_env w) hw" "sock_works (world_env w) 5"
    unfolding w hw_def by (rule sample_board_works sample_sock_works)+
  show "5 \<noteq> u_fd (dma_uio (hw_dma hw))" by (simp add: hw_def sample_bufs sample_uio_def)
  show "rings_fit hw (unat (rg_size (hw_rx hw))) AXIDMA_DESC_CHUNK (unat (h_payload_len req))"
    using sample_rings_fit by (simp add: hw_def req_def sample_image_req_def)
  show "descs_read (world_env w) (b_mem (hw_desc_buf hw)) [0x8C000003]"
    unfolding w using sample_descs [of "[]" 3 "b_mem (hw_desc_buf hw)" 1] by simp
  show "length [0x8C000003 :: u32] = n_chunks (unat (rg_size (hw_rx hw))) (unat AXIDMA_DESC_CHUNK)"
    by (simp add: hw_def sample_bufs n_chunks_def consts_defs)
  show "frame_of_bytes [0x8C000003] (length [0, 0, 0 :: u8])"
    using sample_frame by (simp add: numeral_3_eq_3)
  show "mem_reads (world_env w) (region_mem (hw_rx hw)) [0, 0, 0]"
    unfolding w using sample_mem [of "[]" 3 _ 3] by (simp add: three_zeros)
qed

lemmas sample_start = start_world_def sent_def trace_def

lemma board_run:
  "\<exists>w'. encode_and_reply 5 sample_hw sample_image_req 100 (start_world (board_env [] 3)) = Some (0, w') \<and>
     sent 5 w' = hdr_bytes (encode_resp sample_image_req 3) @ [0, 0, 0]"
  using encode_on_board [OF sample_encode_premises] by (simp add: sample_start)





end
