(* ===== verification/OJLS_Stream.thy ===== *)
theory OJLS_Stream
  imports OJLS_Board
begin

text \<open>
  The stream handler of \<open>ojls_server.c\<close> in detail: the lengths it reads off the descriptors,
  what it sends on a working board, and what the engines are told for a stream.
\<close>

unbundle bit_operations_syntax

section \<open>The lengths of a stream\<close>

text \<open>The lengths of the images that closed, in order, then zeros: what the reply announces.\<close>

definition stream_lens :: "u32 list \<Rightarrow> u32 list" where
  "stream_lens sts = map st_len (takeWhile st_eof sts) @ replicate (length sts - length (takeWhile st_eof sts)) 0"

lemma closed_lens_at_rest:
  assumes "at_rest w ring sts" and "emits P w u" and "n + i = length sts"
  shows "fst (closed_lens ring n i u) = stream_lens (drop i sts)"
  using assms(2,3)
proof (induction n arbitrary: i u P)
  case (Suc n)
  then have i: "i < length sts" by simp
  have d: "drop i sts = sts ! i # drop (Suc i) sts" using i by (simp add: Cons_nth_drop_Suc)
  note l = at_rest_load [OF assms(1) Suc.prems(1) i]
  have "emits (\<lambda>_. True) w (log (EvLoad (status_addr ring i) (sts ! i)) u)"
    using Suc.prems(1) by (blast intro: emits_log emits_mono)
  then have "fst (closed_lens ring n (Suc i) (log (EvLoad (status_addr ring i) (sts ! i)) u)) = stream_lens (drop (Suc i) sts)"
    using Suc.IH Suc.prems(2) by auto
  moreover have "length sts - i = Suc n" using Suc.prems(2) by simp
  ultimately show ?case
    using l by (auto simp: d st_eof_def [symmetric] st_len_def stream_lens_def Let_def split_beta)
      (simp_all add: st_eof_def)
qed (simp add: stream_lens_def)

lemma stream_lens_all: "\<forall>st\<in>set sts. st_eof st \<Longrightarrow> stream_lens sts = map st_len sts"
  by (simp add: stream_lens_def takeWhile_eq_all_conv [THEN iffD2])

text \<open>
  C26: The lengths a stream is answered with, for descriptors at rest: the byte counts of the
  images up to the first that did not close, then zeros, one entry per image.
\<close>

theorem closed_lens_spec:
  assumes "at_rest w ring sts"
  shows "fst (closed_lens ring (length sts) 0 w) =
    map st_len (takeWhile st_eof sts) @ replicate (length sts - length (takeWhile st_eof sts)) 0"
  using closed_lens_at_rest [OF assms emits_refl, of "length sts" 0] by (simp add: stream_lens_def)

definition sample_ring :: axidma_ring where
  "sample_ring = \<lparr>r_db = sample_buf 0x300000 0x8000 ''desc'', r_off = 0, r_desc = 0x300000, r_phys = 0x300000, r_count = 3\<rparr>"

definition sts_env :: "u32 list \<Rightarrow> env" where
  "sts_env sts = (sample_env [])\<lparr>env_word := (\<lambda>h a. sts ! unat ((a - 0x30001C) div 64))\<rparr>"

lemma sample_sts_rest: "at_rest (start_world (sts_env [0x8C000005, 0x8C000006, 0])) sample_ring [0x8C000005, 0x8C000006, 0]"
  unfolding at_rest_def
proof (intro allI impI)
  fix es i
  assume "i < length [0x8C000005, 0x8C000006, 0 :: u32]"
  then have "i = 0 \<or> i = 1 \<or> i = 2" by auto
  then show "env_word (world_env (start_world (sts_env [0x8C000005, 0x8C000006, 0])))
      (es @ hist (start_world (sts_env [0x8C000005, 0x8C000006, 0]))) (status_addr sample_ring i) = [0x8C000005, 0x8C000006, 0] ! i"
    by (auto simp: start_world_def sts_env_def status_addr_def desc_addr_def sample_ring_def consts_defs)
qed

theorem closed_lens_spec_witness:
  "fst (closed_lens sample_ring 3 0 (start_world (sts_env [0x8C000005, 0x8C000006, 0]))) = [5, 6, 0]"
  using closed_lens_spec [OF sample_sts_rest] by (simp add: numeral_3_eq_3 st_defs st_len_def consts_defs)

section \<open>A stream on a working board\<close>

text \<open>The images as the memory \<open>mem\<close> holds them, each at the start of its slot.\<close>

definition slot_images :: "u8 list \<Rightarrow> nat \<Rightarrow> u32 list \<Rightarrow> u8 list list" where
  "slot_images mem slot lens = map (\<lambda>i. take (unat (lens ! i)) (drop (i * slot) mem)) [0..<length lens]"

lemma puts_images:
  assumes sock: "sock_works E fd" and mem: "mem_reads E p mem" and room: "length mem = length lens * unat slot"
    and small: "\<forall>l\<in>set lens. l \<le> slot"
  shows "list_all2 (puts E fd) (slot_images mem (unat slot) lens) (map (send_image fd (Mem p) slot lens) [0..<length lens])"
proof (rule list_all2_all_nthI)
  show "length (slot_images mem (unat slot) lens) = length (map (send_image fd (Mem p) slot lens) [0..<length lens])"
    by (simp add: slot_images_def)
next
  fix i
  assume "i < length (slot_images mem (unat slot) lens)"
  then have i: "i < length lens" by (simp add: slot_images_def)
  let ?img = "take (unat (lens ! i)) (drop (i * unat slot) mem)"
  have "lens ! i \<le> slot" using small i by simp
  then have "unat (lens ! i) \<le> unat slot" by (simp add: word_le_nat_alt)
  moreover have "Suc i * unat slot \<le> length lens * unat slot" using i by (intro mult_le_mono1) simp
  ultimately have len: "length ?img = unat (lens ! i)" using room by simp
  have "mem_reads E (p + of_nat (i * unat slot)) ?img" by (intro mem_reads_take mem_reads_drop mem)
  then have "puts E fd ?img (send_full fd (Mem (p + of_nat (i * unat slot))) (unat (lens ! i)))"
    using sock len by (intro puts_mem)
  then show "puts E fd (slot_images mem (unat slot) lens ! i) (map (send_image fd (Mem p) slot lens) [0..<length lens] ! i)"
    using i by (simp add: slot_images_def send_image_def)
qed

lemma puts_lens:
  "sock_works E fd \<Longrightarrow> list_all2 (puts E fd) (map u32_bytes lens) (map (send_len fd lens) [0..<length lens])"
  by (rule list_all2_all_nthI) (simp_all add: send_len_def puts_local)

lemma stream_send_ok:
  assumes sock: "sock_works (world_env w) fd" and mem: "mem_reads (world_env w) p mem"
    and room: "length mem = length lens * unat slot" "\<forall>l\<in>set lens. l \<le> slot" and cnt: "length lens = unat cnt"
  shows "\<exists>w'. stream_send fd req st (Mem p) slot lens cnt w = Some (0, w') \<and>
    sent fd w' = sent fd w @ stream_msg_of req st cnt lens (slot_images mem (unat slot) lens)"
proof -
  let ?h = "hdr_bytes (stream_resp req st (stream_total lens cnt))"
  have "puts (world_env w) fd ?h (send_full fd (Local ?h) OJLS_PROTO_HDR_LEN)"
    using sock by (intro puts_local) (simp_all add: consts_defs)
  with puts_lens [OF sock, of lens] puts_images [OF sock mem room]
  have "list_all2 (puts (world_env w) fd) (?h # map u32_bytes lens @ slot_images mem (unat slot) lens)
      (send_full fd (Local ?h) OJLS_PROTO_HDR_LEN # map (send_len fd lens) [0..<unat cnt]
        @ map (send_image fd (Mem p) slot lens) [0..<unat cnt])"
    by (auto simp: cnt intro: list_all2_appendI)
  from puts_any_fails [OF this refl] show ?thesis
    by (auto simp: stream_send_def stream_msg_of_def simp del: any_fails.simps)
qed

lemma stream_reply_ok:
  assumes sys: "sysfs_works (world_env w)" and sock: "sock_works (world_env w) fd"
    and rest: "at_rest w s2mm sts" and cnt: "length sts = unat cnt" and closed: "\<forall>st\<in>set sts. st_eof st \<and> st_len st \<le> slot"
    and mem: "mem_reads (world_env w) (region_mem (hw_rx hw)) mem" "length mem = unat cnt * unat slot"
    and fd: "fd \<noteq> u_fd (dma_uio (hw_dma hw))"
  shows "\<exists>w'. stream_reply fd hw req cnt slot s2mm status w = Some (0, w') \<and>
    sent fd w' = sent fd w @ stream_msg_of req status cnt (map st_len sts) (slot_images mem (unat slot) (map st_len sts))"
proof -
  let ?k = "u_fd (dma_uio (hw_dma hw))"
  from to_cpu_ok [OF sys] obtain wa where
    1: "udmabuf_sync_for_cpu (hw_desc_buf hw) 0 (cnt * of_nat desc_size) w = (0, wa)" "world_env wa = world_env w" by blast
  have "sysfs_works (world_env wa)" using sys 1(2) by simp
  from to_cpu_ok [OF this] obtain w1 where
    2: "udmabuf_sync_for_cpu (rg_b (hw_rx hw)) (rg_off (hw_rx hw)) (slot * cnt) wa = (0, w1)" by blast
  have e1: "emits (hw_event ?k) w w1" by (intro to_cpu_after [OF 2] to_cpu_after [OF 1(1)] emits_refl)
  obtain lens w2 where l: "closed_lens s2mm (unat cnt) 0 w1 = (lens, w2)" by force
  have lens: "lens = map st_len sts"
    using closed_lens_at_rest [OF rest e1, of "unat cnt" 0] l cnt closed by (simp add: stream_lens_all)
  have e2: "emits (hw_event ?k) w w2" by (rule closed_lens_after [OF l e1])
  obtain w3 where 3: "stream_send fd req status (Mem (region_mem (hw_rx hw))) slot lens cnt w2 = Some (0, w3)"
    "sent fd w3 = sent fd w2 @ stream_msg_of req status cnt lens (slot_images mem (unat slot) lens)"
    using stream_send_ok [of w2 fd "region_mem (hw_rx hw)" mem lens slot cnt req status] emits_env [OF e2] sock mem cnt closed lens
    by auto
  have "sent fd w2 = sent fd w" using e2 fd by (rule hw_emits_wire)
  with 1 2 l 3 show ?thesis
    by (simp add: stream_reply_def io_of_def lens sys_free_def)
qed

definition malloc_works :: "env \<Rightarrow> bool" where
  "malloc_works E \<longleftrightarrow> (\<forall>h n. env_malloc E h n)"

lemma chunks_of_slots: "0 < slot \<Longrightarrow> n_chunks (slot * n) slot = n"
  unfolding n_chunks_def by (rule div_nat_eqI) simp_all

lemma stream_on_board:
  assumes board: "working_board (world_env w) hw" "malloc_works (world_env w)"
    and sock: "sock_works (world_env w) fd" "fd \<noteq> u_fd (dma_uio (hw_dma hw))"
    and slot: "slot = stream_slot_bytes (h_payload_len req div cnt)" "0 < unat slot"
    and cnt: "0 < unat cnt" "unat cnt * 4 < 2 ^ 32" "unat slot * unat cnt < 2 ^ 32"
    and fit: "rings_fit hw (unat slot * unat cnt) slot (unat (h_payload_len req))"
    and descs: "descs_read (world_env w) (b_mem (hw_desc_buf hw)) sts" "length sts = unat cnt"
    and closed: "\<forall>st\<in>set sts. \<not> st_error st \<and> st_eof st \<and> st_done st \<and> st_len st \<le> slot"
    and mem: "mem_reads (world_env w) (region_mem (hw_rx hw)) mem" "length mem = unat cnt * unat slot"
  shows "\<exists>w'. stream_and_reply fd hw req cnt ms w = Some (0, w') \<and>
    sent fd w' = sent fd w @ stream_msg_of req OJLS_ST_OK cnt (map st_len sts) (slot_images mem (unat slot) (map st_len sts))"
proof -
  let ?k = "u_fd (dma_uio (hw_dma hw))" and ?len = "ucast slot * ucast cnt :: u64"
  let ?rx = "rx_ring hw (unat slot * unat cnt) slot" and ?tx = "tx_ring hw (unat (h_payload_len req))"
  have len: "unat ?len = unat slot * unat cnt" using cnt(3) by (simp add: unat_word_ariths unat_widen)
  have c: "0 < slot" using slot(2) by (simp add: word_less_nat_alt)
  have len58: "unat ?len < 2 ^ 58" using len cnt(3) by simp
  from transfer_starts [OF board(1) fit [folded len] c len58, unfolded len] obtain w1 w2 w3 where
    1: "any_fails [hw_configure hw (h_width req) (h_height req),
       io_of (gate_set hw (if h_ready_pct req \<noteq> 0 then ucast (h_ready_pct req) else 100)),
       io_of (udmabuf_sync_for_device (rg_b (hw_tx hw)) (rg_off (hw_tx hw)) (h_payload_len req)), axidma_reset (hw_dma hw)] w = Some (False, w1)" and
    2: "build_rings hw ?len slot (h_payload_len req) w1 = (Some (?rx, ?tx), w2)" and
    3: "udmabuf_sync_for_device (hw_desc_buf hw) 0 (b_size (hw_desc_buf hw)) w2 = (0, w3)" "world_env w3 = world_env w"
    by blast
  obtain ok w4 where 4: "sys_calloc cnt 4 w3 = (ok, w4)" by force
  have ok: "ok" and env4: "world_env w4 = world_env w" and s4: "sent fd w4 = sent fd w3"
    using 4 board(2) cnt(2) 3(2) by (auto simp: sys_calloc_def malloc_works_def Let_def)
  obtain t w5 where 5: "now_us w4 = (t, w5)" by force
  note pos = ring_count_pos [OF fit c]
  from start_ok [OF pos [THEN conjunct1] pos [THEN conjunct2]] obtain w6 where
    6: "any_fails [io_of (axidma_sg_start (hw_dma hw) AXIDMA_S2MM ?rx), io_of (axidma_sg_start (hw_dma hw) AXIDMA_MM2S ?tx)] w5 = Some (False, w6)"
    by blast
  have e3: "emits (hw_event ?k) w w3"
    by (intro to_device_after [OF 3(1)] build_rings_after [OF 2] prepare_after [OF 1] emits_refl)
  have e6: "emits (hw_event ?k) w4 w6" by (intro start_after [OF 6] now_us_after [OF 5] emits_refl)
  have env6: "world_env w6 = world_env w" using emits_env [OF e6] env4 by simp
  have rest: "at_rest w6 ?rx sts" using descs(1) env6 by (simp add: rx_at_rest)
  have count: "length sts = nat (r_count ?rx)"
    using descs(2) slot(2) by (simp add: rx_ring_def built_ring_def chunks_of_slots)
  have "0 < r_count ?rx" using pos by simp
  with wait_packets_ok [of w6 hw, OF _ rest count] board(1) closed env6 obtain w7 where
    7: "axidma_wait_packets (hw_dma hw) ?rx ms w6 = Some (0, w7)" by auto
  obtain t8 w8 where 8: "now_us w7 = (t8, w8)" by force
  have e8: "emits (hw_event ?k) w6 w8" by (intro now_us_after [OF 8] axidma_wait_packets_after [OF 7] emits_refl)
  have env8: "world_env w8 = world_env w" using emits_env [OF e8] env6 by simp
  obtain w' where r: "stream_reply fd hw req cnt slot ?rx OJLS_ST_OK w8 = Some (0, w')"
    "sent fd w' = sent fd w8 @ stream_msg_of req OJLS_ST_OK cnt (map st_len sts) (slot_images mem (unat slot) (map st_len sts))"
    using stream_reply_ok [of w8 fd ?rx sts cnt slot hw mem req OJLS_ST_OK] at_rest_emits [OF rest e8] env8 board sock closed mem descs(2)
    by (auto simp: working_board_def)
  have "sent fd w8 = sent fd w"
    using hw_emits_wire(1) [OF e3 sock(2)] s4 hw_emits_wire(1) [OF emits_trans [OF e6 e8] sock(2)] by simp
  with r 1 2 3(1) 4 ok 5 6 7 8 show ?thesis
    by (simp add: stream_and_reply_def slot(1) [symmetric] Let_def del: any_fails.simps)
qed

end
