(* ===== verification/OJLS_Checks.thy ===== *)
theory OJLS_Checks
  imports OJLS_Serve OJLS_Stream
begin

text \<open>
  What the request checks of \<open>serve_connection\<close> establish. \<open>image_size\<close> is the size of an
  image without the wrap-around of the code's 32-bit product; \<open>board_layout\<close> says what the
  buffers of a board have to be for every accepted request to fit.
\<close>

unbundle bit_operations_syntax

section \<open>The product of the dimensions\<close>

definition image_size :: "ojls_hdr \<Rightarrow> nat" where
  "image_size req = unat (h_width req) * unat (h_height req) * (if h_bitness req > 8 then 2 else 1)"

lemma image_bytes_unat: "unat (image_bytes_of req) = image_size req mod 2 ^ 32"
  by (simp add: image_bytes_of_def image_size_def ojls_bytes_per_pixel_def unat_word_ariths unat_widen mod_mult_left_eq)

lemma image_bytes_exact: "image_size req < 2 ^ 32 \<Longrightarrow> unat (image_bytes_of req) = image_size req"
  by (simp add: image_bytes_unat)

text \<open>A divisor of a power of two is a power of two, so no two 16-bit factors give \<open>2 ^ 31\<close>.\<close>

lemma factor_of_power2: "x * y = 2 ^ k \<Longrightarrow> \<exists>i j. x = 2 ^ i \<and> y = (2 :: nat) ^ j \<and> i + j = k"
proof (induction k arbitrary: x y)
  case (Suc k)
  then have "even (x * y)" by simp
  then consider x' where "x = 2 * x'" | y' where "y = 2 * y'" by (auto elim!: evenE)
  then show ?case
  proof cases
    case (1 x')
    with Suc.prems have "x' * y = 2 ^ k" by simp
    with Suc.IH obtain i j where "x' = 2 ^ i" "y = 2 ^ j" "i + j = k" by blast
    with 1 show ?thesis by (intro exI [of _ "Suc i"] exI [of _ j]) simp
  next
    case (2 y')
    with Suc.prems have "x * y' = 2 ^ k" by simp
    with Suc.IH obtain i j where "x = 2 ^ i" "y' = 2 ^ j" "i + j = k" by blast
    with 2 show ?thesis by (intro exI [of _ i] exI [of _ "Suc j"]) simp
  qed
qed simp

lemma no_product_2_31:
  assumes "x < 2 ^ 16" and "y < 2 ^ 16"
  shows "x * y \<noteq> (2 :: nat) ^ 31"
proof
  assume "x * y = 2 ^ 31"
  from factor_of_power2 [OF this] obtain i j where ij: "x = 2 ^ i" "y = 2 ^ j" "i + j = 31" by blast
  with assms have "i < 16" "j < 16" by (metis one_less_numeral_iff power_less_imp_less_exp semiring_norm(76))+
  with ij(3) show False by simp
qed

lemma image_bytes_zero_iff: "image_bytes_of req = 0 \<longleftrightarrow> h_width req = 0 \<or> h_height req = 0"
proof -
  let ?w = "unat (h_width req)" and ?h = "unat (h_height req)"
  have b: "?w < 2 ^ 16" "?h < 2 ^ 16" by (rule unat_u16_less)+
  then have "?w * ?h < 2 ^ 16 * 2 ^ 16" by (intro mult_strict_mono') simp_all
  then have p: "?w * ?h < 2 ^ 32" by simp
  have "image_bytes_of req = 0 \<longleftrightarrow> image_size req mod 2 ^ 32 = 0"
    by (simp add: unat_eq_0 [symmetric] image_bytes_unat)
  also have "\<dots> \<longleftrightarrow> ?w * ?h = 0"
  proof (cases "h_bitness req > 8")
    case False
    with p show ?thesis by (simp add: image_size_def)
  next
    case True
    have "2 ^ 31 dvd n \<longleftrightarrow> n = 0 \<or> n = 2 ^ 31" if "n < 2 ^ 32" for n :: nat
      using that by (auto elim!: dvdE)
    with no_product_2_31 [OF b] p have "2 ^ 31 dvd ?w * ?h \<longleftrightarrow> ?w * ?h = 0" by blast
    with True show ?thesis by (simp add: image_size_def mod_eq_0_iff_dvd mult.commute)
  qed
  finally show ?thesis by (simp add: unat_eq_0)
qed


section \<open>The size check\<close>

text \<open>What the size check is meant to accept: one image, or a whole number of images.\<close>

definition size_fits :: "ojls_hdr \<Rightarrow> nat \<Rightarrow> bool" where
  "size_fits req k \<longleftrightarrow> unat (h_payload_len req) = k * image_size req \<and> 0 < k \<and> 0 < image_size req"

lemma check_size_single:
  assumes "\<not> is_stream req" and "image_size req < 2 ^ 32"
  shows "check_size req = (OJLS_ST_OK, cnt) \<longleftrightarrow>
    8 \<le> h_bitness req \<and> h_bitness req \<le> 16 \<and> cnt = 1 \<and> unat (h_payload_len req) = image_size req"
proof -
  have "h_payload_len req = image_bytes_of req \<longleftrightarrow> unat (h_payload_len req) = image_size req"
    using assms(2) by (simp add: word_unat_eq_iff image_bytes_exact)
  with assms(1) show ?thesis by (auto simp: check_size_def Let_def not_less consts_defs)
qed

lemma whole_multiple: "n mod e = 0 \<Longrightarrow> q = n div e \<Longrightarrow> 0 < n \<Longrightarrow> n = q * e \<and> 0 < (q :: nat)"
  by (metis add.right_neutral div_mult_mod_eq gr0I mult_0)

lemma check_size_stream:
  assumes "is_stream req" and "image_size req < 2 ^ 32"
  shows "check_size req = (OJLS_ST_OK, cnt) \<longleftrightarrow>
    8 \<le> h_bitness req \<and> h_bitness req \<le> 16 \<and> size_fits req (unat cnt)"
proof -
  let ?e = "image_bytes_of req" and ?n = "h_payload_len req"
  have e: "unat ?e = image_size req" using assms(2) by (rule image_bytes_exact)
  have "?e \<noteq> 0 \<and> ?n \<noteq> 0 \<and> ?n mod ?e = 0 \<and> cnt = ?n div ?e \<longleftrightarrow> size_fits req (unat cnt)"
  proof
    assume a: "?e \<noteq> 0 \<and> ?n \<noteq> 0 \<and> ?n mod ?e = 0 \<and> cnt = ?n div ?e"
    then have n: "unat ?n mod image_size req = 0" "unat cnt = unat ?n div image_size req"
      by (metis e unat_0 unat_mod, metis e unat_div)
    from a have "0 < unat ?n" by (simp add: unat_gt_0)
    moreover from a have "0 < image_size req" using e by (metis gr0I unat_eq_0)
    ultimately show "size_fits req (unat cnt)"
      using whole_multiple [OF n] unfolding size_fits_def by simp
  next
    assume f: "size_fits req (unat cnt)"
    then have "unat ?n mod unat ?e = 0" "unat cnt = unat ?n div unat ?e" "0 < unat ?e" "0 < unat ?n"
      by (simp_all add: size_fits_def e)
    then show "?e \<noteq> 0 \<and> ?n \<noteq> 0 \<and> ?n mod ?e = 0 \<and> cnt = ?n div ?e"
      by (auto simp: word_unat_eq_iff unat_mod unat_div)
  qed
  moreover have "check_size req = (OJLS_ST_OK, cnt) \<longleftrightarrow> 8 \<le> h_bitness req \<and> h_bitness req \<le> 16 \<and>
      ?e \<noteq> 0 \<and> ?n \<noteq> 0 \<and> ?n mod ?e = 0 \<and> cnt = ?n div ?e"
    using assms(1) unfolding check_size_def Let_def
    by (cases "?n mod ?e = 0") (auto simp: not_less consts_defs)
  ultimately show ?thesis by (simp only:)
qed

text \<open>
  C7: For images of less than 4 GiB the size check is exact: a single-image request passes it
  just when the payload is one image, a stream request just when the payload is a whole,
  positive number of images, which is the count the server goes on with; everything else gets
  \<open>BAD_BITNESS\<close> or \<open>SIZE_MISMATCH\<close>.
\<close>

theorem check_size_exact:
  assumes "image_size req < 2 ^ 32"
  shows "(check_size req = (OJLS_ST_OK, cnt) \<longleftrightarrow> 8 \<le> h_bitness req \<and> h_bitness req \<le> 16 \<and>
      (if is_stream req then size_fits req (unat cnt) else cnt = 1 \<and> unat (h_payload_len req) = image_size req)) \<and>
    fst (check_size req) \<in> {OJLS_ST_OK, OJLS_ST_BAD_BITNESS, OJLS_ST_SIZE_MISMATCH}"
proof
  show "check_size req = (OJLS_ST_OK, cnt) \<longleftrightarrow> 8 \<le> h_bitness req \<and> h_bitness req \<le> 16 \<and>
    (if is_stream req then size_fits req (unat cnt) else cnt = 1 \<and> unat (h_payload_len req) = image_size req)"
    using check_size_single [of req cnt] check_size_stream [of req cnt] assms by auto
  show "fst (check_size req) \<in> {OJLS_ST_OK, OJLS_ST_BAD_BITNESS, OJLS_ST_SIZE_MISMATCH}"
    by (simp add: check_size_def Let_def)
qed

theorem check_size_exact_witness:
  "check_size sample_image_req = (OJLS_ST_OK, 1) \<and> unat (h_payload_len sample_image_req) = image_size sample_image_req"
proof -
  have "image_size sample_image_req < 2 ^ 32" by (simp add: image_size_def sample_image_req_def)
  from check_size_exact [OF this, of 1] show ?thesis
    by (simp add: image_size_def sample_image_req_def is_stream_def consts_defs)
qed

definition huge_req :: ojls_hdr where
  "huge_req = \<lparr>h_magic = OJLS_PROTO_MAGIC, h_version = 1, h_type = OJLS_MSG_ENCODE_REQ, h_status = 0,
     h_width = 65535, h_height = 32769, h_bitness = 16, h_ready_pct = 0, h_payload_len = 65534\<rparr>"

definition readme_hw :: hw where
  "readme_hw = sample_hw\<lparr>hw_bitness := 16, hw_max_width := 65535, hw_max_height := 65535,
     hw_tx := (hw_tx sample_hw)\<lparr>rg_size := 0x100000\<rparr>, hw_rx := (hw_rx sample_hw)\<lparr>rg_size := 0x100000\<rparr>\<rparr>"


section \<open>The slots of a stream\<close>

lemma and_not_mask: "(x :: u64) AND NOT (mask n) = push_bit n (drop_bit n x)"
  by (rule bit_word_eqI) (auto simp: bit_simps)

lemma round_down: "unat ((x :: u64) AND - 4096) = unat x div 4096 * 4096"
proof -
  have m: "NOT (mask 12) = (- 4096 :: u64)" by (simp add: mask_numeral)
  have "unat (push_bit 12 (drop_bit 12 x)) = unat x div 4096 * 4096 mod 2 ^ 64"
    by (simp add: drop_bit_eq_div push_bit_eq_mult unat_word_ariths unat_div mod_mult_left_eq)
  also have "\<dots> = unat x div 4096 * 4096"
    using unat_u64_less [of x] div_times_less_eq_dividend [of "unat x" 4096] by (intro mod_less) linarith
  finally show ?thesis using and_not_mask [of x 12] unfolding m by simp
qed

lemma slot_unat:
  assumes "unat img + unat img div 4 + 8191 < 2 ^ 32"
  shows "unat (stream_slot_bytes img) = (unat img + unat img div 4 + 8191) div 4096 * 4096"
proof -
  define worst :: u64 where "worst = ucast img + ucast (img div 4) + 4096"
  have w: "unat (worst + 4095) = unat img + unat img div 4 + 8191"
    using assms by (simp add: worst_def unat_word_ariths unat_widen unat_div)
  have "(unat img + unat img div 4 + 8191) div 4096 * 4096 < 2 ^ 32"
    using assms div_times_less_eq_dividend [of "unat img + unat img div 4 + 8191" 4096] by linarith
  then show ?thesis
    unfolding stream_slot_bytes_def Let_def worst_def [symmetric]
    by (simp add: unsigned_ucast_eq round_down w take_bit_nat_eq_self)
qed

text \<open>
  What the buffers of a board have to be: the descriptor buffer aligned to 64 bytes in both
  halves and large enough for the 128 chunks that 4 GiB can have, the rx buffer below 4 GiB
  by a page.
\<close>

definition board_layout :: "hw \<Rightarrow> bool" where
  "board_layout hw \<longleftrightarrow> b_phys (hw_desc_buf hw) AND 0x3F = 0 \<and> (b_size (hw_desc_buf hw) div 2) AND 0x3F = 0 \<and>
     (b_phys (hw_desc_buf hw) + ucast (b_size (hw_desc_buf hw) div 2)) AND 0x3F = 0 \<and>
     16384 \<le> unat (b_size (hw_desc_buf hw)) \<and> unat (rg_size (hw_rx hw)) \<le> 2 ^ 32 - 4096"

lemma chunks_128: "n < 2 ^ 32 \<Longrightarrow> n_chunks n (unat AXIDMA_DESC_CHUNK) * desc_size \<le> 8192"
  by (simp add: n_chunks_def consts_defs)

lemma second_half: "16384 \<le> unat (sz :: u32) \<Longrightarrow> 8192 \<le> unat (sz div 2) \<and> 8192 \<le> unat (sz - sz div 2)"
proof -
  assume s: "16384 \<le> unat sz"
  have "sz div 2 \<le> sz" by (simp add: word_le_nat_alt unat_div)
  then have "unat (sz - sz div 2) = unat sz - unat sz div 2" by (simp add: unat_sub unat_div)
  with s show ?thesis unfolding unat_div by simp presburger
qed

lemma check_hw_ok:
  assumes "check_hw hw req cnt = OJLS_ST_OK"
  shows "ucast (h_bitness req) = hw_bitness hw" "h_width req \<noteq> 0" "h_height req \<noteq> 0"
    and "unat (h_width req) \<le> unat (hw_max_width hw)" "unat (h_height req) \<le> unat (hw_max_height hw)"
    and "unat (h_payload_len req) \<le> unat (rg_size (hw_tx hw))"
    and "unat (h_payload_len req) + unat (h_payload_len req) div 4 + 4096 \<le> unat (rg_size (hw_rx hw))"
    and "is_stream req \<Longrightarrow> unat cnt * unat (stream_slot_bytes (h_payload_len req div cnt)) \<le> unat (rg_size (hw_rx hw)) \<and>
      unat cnt * desc_size \<le> unat (b_size (hw_desc_buf hw) div 2)"
proof -
  let ?n = "h_payload_len req" and ?slot = "stream_slot_bytes (h_payload_len req div cnt)"
  have ne: "OJLS_ST_BAD_BITNESS \<noteq> OJLS_ST_OK" "OJLS_ST_BAD_DIMS \<noteq> OJLS_ST_OK" "OJLS_ST_TOO_LARGE \<noteq> OJLS_ST_OK"
    by (simp_all add: consts_defs)
  from assms ne have c: "ucast (h_bitness req) = hw_bitness hw" "\<not> ucast (h_width req) < OJLS_MIN_WIDTH"
    "\<not> ucast (h_width req) > hw_max_width hw" "\<not> ucast (h_height req) < OJLS_MIN_HEIGHT" "\<not> ucast (h_height req) > hw_max_height hw"
    "\<not> ?n > rg_size (hw_tx hw)" "\<not> (ucast ?n + ucast (?n div 4) + 4096 :: u64) > ucast (rg_size (hw_rx hw))"
    "is_stream req \<Longrightarrow> \<not> (ucast cnt * ucast ?slot :: u64) > ucast (rg_size (hw_rx hw))"
    "is_stream req \<Longrightarrow> \<not> (ucast cnt * of_nat desc_size :: u64) > ucast (b_size (hw_desc_buf hw) div 2)"
    unfolding check_hw_def by (metis (no_types, lifting))+
  show "ucast (h_bitness req) = hw_bitness hw" by (rule c(1))
  show "h_width req \<noteq> 0" "h_height req \<noteq> 0" using c(2,4) by (auto simp: consts_defs)
  show "unat (h_width req) \<le> unat (hw_max_width hw)" "unat (h_height req) \<le> unat (hw_max_height hw)"
    "unat ?n \<le> unat (rg_size (hw_tx hw))"
    using c(3,5,6) by (simp_all add: word_less_nat_alt unat_widen)
  have "unat (ucast ?n + ucast (?n div 4) + 4096 :: u64) = unat ?n + unat ?n div 4 + 4096"
    using unat_u32_less [of ?n] by (simp add: unat_word_ariths unat_widen unat_div)
  with c(7) show "unat ?n + unat ?n div 4 + 4096 \<le> unat (rg_size (hw_rx hw))"
    by (simp add: word_less_nat_alt unat_widen)
  show "unat cnt * unat ?slot \<le> unat (rg_size (hw_rx hw)) \<and> unat cnt * desc_size \<le> unat (b_size (hw_desc_buf hw) div 2)"
    if s: "is_stream req"
  proof -
    have "unat cnt * unat ?slot < 2 ^ 32 * 2 ^ 32" by (intro mult_strict_mono') (rule unat_u32_less, rule unat_u32_less, simp_all)
    then have "unat (ucast cnt * ucast ?slot :: u64) = unat cnt * unat ?slot" by (simp add: unat_word_ariths unat_widen)
    moreover have "unat (ucast cnt * of_nat desc_size :: u64) = unat cnt * desc_size"
      using unat_u32_less [of cnt] by (simp add: unat_word_ariths unat_widen consts_defs)
    ultimately show ?thesis using c(8,9) [OF s] by (simp add: word_less_nat_alt unat_widen)
  qed
qed

text \<open>What acceptance in hardware mode gives the handlers.\<close>

definition slot_of :: "ojls_hdr \<Rightarrow> u32 \<Rightarrow> u32" where
  "slot_of req cnt = stream_slot_bytes (h_payload_len req div cnt)"

lemma accepted_fields:
  assumes "check_request hw opt req = (OJLS_ST_OK, cnt)" and "\<not> opt_loopback opt"
  shows "check_hw hw req cnt = OJLS_ST_OK" and "check_size req = (OJLS_ST_OK, cnt)" and "check_proto req = OJLS_ST_OK"
  using assms by (auto simp: check_request_def Let_def split: if_splits prod.splits)

lemma check_size_ok:
  assumes "check_size req = (OJLS_ST_OK, cnt)"
  shows "\<not> is_stream req \<Longrightarrow> h_payload_len req = image_bytes_of req \<and> cnt = 1"
    and "is_stream req \<Longrightarrow> image_bytes_of req \<noteq> 0 \<and> h_payload_len req \<noteq> 0 \<and>
      h_payload_len req mod image_bytes_of req = 0 \<and> cnt = h_payload_len req div image_bytes_of req"
  using assms by (auto simp: check_size_def Let_def consts_defs split: if_splits)

lemma accepted_count:
  assumes "check_request hw opt req = (OJLS_ST_OK, cnt)" and "\<not> opt_loopback opt"
  shows "h_payload_len req \<noteq> 0" and "cnt \<noteq> 0" and "unat cnt \<le> unat (h_payload_len req)"
proof -
  note c = accepted_fields [OF assms]
  have e: "image_bytes_of req \<noteq> 0" using check_hw_ok(2,3) [OF c(1)] by (simp add: image_bytes_zero_iff)
  show n: "h_payload_len req \<noteq> 0"
    using check_size_ok [OF c(2)] e by (cases "is_stream req") auto
  have n0: "0 < unat (h_payload_len req)" using n by (simp add: unat_gt_0)
  have "0 < unat cnt \<and> unat cnt \<le> unat (h_payload_len req)"
  proof (cases "is_stream req")
    case True
    with check_size_ok(2) [OF c(2)] have m: "unat (h_payload_len req) mod unat (image_bytes_of req) = 0"
      and cnt: "unat cnt = unat (h_payload_len req) div unat (image_bytes_of req)"
      by (simp_all only: unat_mod [symmetric] unat_0 unat_div [symmetric])
    from whole_multiple [OF m cnt n0] show ?thesis by (simp add: cnt)
  next
    case False
    with check_size_ok(1) [OF c(2)] n0 show ?thesis by simp
  qed
  then show "cnt \<noteq> 0" "unat cnt \<le> unat (h_payload_len req)" by (auto simp: unat_gt_0)
qed

lemma accepted_slot:
  assumes "check_request hw opt req = (OJLS_ST_OK, cnt)" and "\<not> opt_loopback opt" and "board_layout hw"
  shows "unat (h_payload_len req div cnt) + unat (h_payload_len req div cnt) div 4 + 4096 \<le> unat (slot_of req cnt)"
    and "unat (slot_of req cnt) \<le> unat (rg_size (hw_rx hw)) + 4095"
proof -
  let ?img = "unat (h_payload_len req div cnt)"
  have "?img \<le> unat (h_payload_len req)" by (simp add: unat_div)
  then have "?img + ?img div 4 + 4096 \<le> unat (rg_size (hw_rx hw))"
    using check_hw_ok(7) [OF accepted_fields(1) [OF assms(1,2)]] div_le_mono [of ?img "unat (h_payload_len req)" 4] by linarith
  moreover from this have "?img + ?img div 4 + 8191 < 2 ^ 32" using assms(3) by (simp add: board_layout_def)
  then have s: "unat (slot_of req cnt) = (?img + ?img div 4 + 8191) div 4096 * 4096"
    unfolding slot_of_def by (rule slot_unat)
  ultimately show "?img + ?img div 4 + 4096 \<le> unat (slot_of req cnt)"
    "unat (slot_of req cnt) \<le> unat (rg_size (hw_rx hw)) + 4095"
    unfolding s using div_mult_mod_eq [of "?img + ?img div 4 + 8191" 4096] mod_less_divisor [of 4096 "?img + ?img div 4 + 8191"]
    by linarith+
qed

lemma accepted_rings:
  assumes a: "check_request hw opt req = (OJLS_ST_OK, cnt)" "\<not> opt_loopback opt" and b: "board_layout hw"
  shows "rings_fit hw (unat (rg_size (hw_rx hw))) AXIDMA_DESC_CHUNK (unat (h_payload_len req))"
    and "is_stream req \<Longrightarrow> rings_fit hw (unat (slot_of req cnt) * unat cnt) (slot_of req cnt) (unat (h_payload_len req))"
proof -
  note h = check_hw_ok [OF accepted_fields(1) [OF a]]
  have n: "0 < unat (h_payload_len req)" using accepted_count(1) [OF a] by (simp add: unat_gt_0)
  have rx: "0 < unat (rg_size (hw_rx hw))" using h(7) by simp
  have half: "8192 \<le> unat (b_size (hw_desc_buf hw) div 2)" "8192 \<le> unat (b_size (hw_desc_buf hw) - b_size (hw_desc_buf hw) div 2)"
    using second_half b by (simp_all add: board_layout_def)
  have tx: "ring_fits (hw_desc_buf hw) (b_size (hw_desc_buf hw) div 2)
       (b_size (hw_desc_buf hw) - b_size (hw_desc_buf hw) div 2) (unat (h_payload_len req)) AXIDMA_DESC_CHUNK"
    using n half(2) chunks_128 [OF unat_u32_less [of "h_payload_len req"]] b by (simp add: ring_fits_def board_layout_def)
  show "rings_fit hw (unat (rg_size (hw_rx hw))) AXIDMA_DESC_CHUNK (unat (h_payload_len req))"
    using tx rx half(1) chunks_128 [OF unat_u32_less [of "rg_size (hw_rx hw)"]] b
    by (simp add: rings_fit_def ring_fits_def board_layout_def)
  show "rings_fit hw (unat (slot_of req cnt) * unat cnt) (slot_of req cnt) (unat (h_payload_len req))" if s: "is_stream req"
  proof -
    have slot: "0 < unat (slot_of req cnt)" using accepted_slot(1) [OF a b] by simp
    have "0 < unat cnt" using accepted_count(2) [OF a] by (simp add: unat_gt_0)
    with tx slot h(8) [OF s] chunks_of_slots [OF slot, of "unat cnt"] b show ?thesis
      by (simp add: rings_fit_def ring_fits_def board_layout_def)
  qed
qed

text \<open>
  C6: On a board with the buffer layout of \<open>board_layout\<close>, a request that passes the checks of
  hardware mode fits: its payload fits the tx buffer, the worst-case output of one image fits
  the rx buffer (and its slot, for a stream, whose slots fit the rx buffer together), and
  \<open>axidma_ring_build\<close> refuses neither of the two rings.
\<close>

theorem accepted_fits:
  assumes "check_request hw opt req = (OJLS_ST_OK, cnt)" and "\<not> opt_loopback opt" and "board_layout hw"
  shows "unat (h_payload_len req) \<le> unat (rg_size (hw_tx hw)) \<and>
    unat (h_payload_len req) + unat (h_payload_len req) div 4 + 4096 \<le> unat (rg_size (hw_rx hw)) \<and>
    fst (build_rings hw (ucast (rg_size (hw_rx hw))) AXIDMA_DESC_CHUNK (h_payload_len req) w) \<noteq> None \<and>
    (is_stream req \<longrightarrow>
       unat (h_payload_len req div cnt) + unat (h_payload_len req div cnt) div 4 + 4096 \<le> unat (slot_of req cnt) \<and>
       unat cnt * unat (slot_of req cnt) \<le> unat (rg_size (hw_rx hw)) \<and>
       fst (build_rings hw (ucast (slot_of req cnt) * ucast cnt) (slot_of req cnt) (h_payload_len req) w) \<noteq> None)"
proof -
  note h = check_hw_ok [OF accepted_fields(1) [OF assms(1,2)]]
  have rx: "unat (ucast (rg_size (hw_rx hw)) :: u64) < 2 ^ 58"
    using unat_u32_less [of "rg_size (hw_rx hw)"] by (simp add: unat_widen)
  have one: "fst (build_rings hw (ucast (rg_size (hw_rx hw))) AXIDMA_DESC_CHUNK (h_payload_len req) w) \<noteq> None"
    using build_rings_exact(1) [OF _ rx, of AXIDMA_DESC_CHUNK hw "h_payload_len req" w] accepted_rings(1) [OF assms]
    by (auto simp: unat_widen consts_defs)
  have many: "unat cnt * unat (slot_of req cnt) \<le> unat (rg_size (hw_rx hw)) \<and>
     fst (build_rings hw (ucast (slot_of req cnt) * ucast cnt) (slot_of req cnt) (h_payload_len req) w) \<noteq> None"
    if s: "is_stream req"
  proof -
    have c: "unat cnt * unat (slot_of req cnt) \<le> unat (rg_size (hw_rx hw))" using h(8) [OF s] by (simp add: slot_of_def)
    then have p: "unat (slot_of req cnt) * unat cnt < 2 ^ 32"
      using unat_u32_less [of "rg_size (hw_rx hw)"] by (simp add: mult.commute)
    then have u: "unat (ucast (slot_of req cnt) * ucast cnt :: u64) = unat (slot_of req cnt) * unat cnt"
      by (simp add: unat_word_ariths unat_widen)
    have "0 < slot_of req cnt" using accepted_slot(1) [OF assms] by (simp add: word_less_nat_alt)
    from build_rings_exact(1) [OF this, of "ucast (slot_of req cnt) * ucast cnt" hw "h_payload_len req" w]
      accepted_rings(2) [OF assms s] p c show ?thesis by (auto simp: u)
  qed
  from h(6,7) one accepted_slot(1) [OF assms] many show ?thesis by blast
qed

lemma sample_layout: "board_layout sample_hw"
  by (simp add: board_layout_def sample_bufs sample_buf_def)

lemma sample_accepted: "check_request sample_hw default_options sample_image_req = (OJLS_ST_OK, 1)"
  by code_simp

theorem accepted_fits_witness:
  "check_request sample_hw default_options sample_image_req = (OJLS_ST_OK, 1) \<and>
   unat (h_payload_len sample_image_req) \<le> unat (rg_size (hw_tx sample_hw))"
  using accepted_fits [OF sample_accepted _ sample_layout] sample_accepted by (simp add: default_options_def)

lemma accepted_stream_on_board:
  assumes acc: "check_request hw opt req = (OJLS_ST_OK, cnt)" "\<not> opt_loopback opt" "is_stream req" and "board_layout hw"
    and board: "working_board (world_env w) hw" "malloc_works (world_env w)"
    and sock: "sock_works (world_env w) fd" "fd \<noteq> u_fd (dma_uio (hw_dma hw))"
    and descs: "descs_read (world_env w) (b_mem (hw_desc_buf hw)) sts" "length sts = unat cnt"
    and closed: "\<forall>st\<in>set sts. \<not> st_error st \<and> st_eof st \<and> st_done st \<and> st_len st \<le> slot_of req cnt"
    and mem: "mem_reads (world_env w) (region_mem (hw_rx hw)) mem" "length mem = unat cnt * unat (slot_of req cnt)"
  shows "\<exists>w'. stream_and_reply fd hw req cnt ms w = Some (0, w') \<and>
    sent fd w' = sent fd w @ stream_msg_of req OJLS_ST_OK cnt (map st_len sts)
      (slot_images mem (unat (slot_of req cnt)) (map st_len sts))"
proof (rule stream_on_board [OF board sock slot_of_def])
  note h = check_hw_ok(8) [OF accepted_fields(1) [OF acc(1,2)] acc(3)]
  show "0 < unat (slot_of req cnt)" using accepted_slot(1) [OF acc(1,2) assms(4)] by simp
  show "0 < unat cnt" using accepted_count(2) [OF acc(1,2)] by (simp add: unat_gt_0)
  show "unat cnt * 4 < 2 ^ 32"
    using h unat_u32_less [of "b_size (hw_desc_buf hw) div 2"] by (simp add: consts_defs)
  show "unat (slot_of req cnt) * unat cnt < 2 ^ 32"
    using h unat_u32_less [of "rg_size (hw_rx hw)"] by (simp add: slot_of_def mult.commute)
  show "rings_fit hw (unat (slot_of req cnt) * unat cnt) (slot_of req cnt) (unat (h_payload_len req))"
    by (rule accepted_rings(2) [OF acc(1,2) assms(4) acc(3)])
qed (rule descs closed mem)+

text \<open>A stream of two 4x2 images.\<close>

definition sample_stream_req :: ojls_hdr where
  "sample_stream_req = sample_image_req\<lparr>h_type := OJLS_MSG_STREAM_REQ, h_payload_len := 16\<rparr>"

lemma sample_stream_accepted: "check_request sample_hw default_options sample_stream_req = (OJLS_ST_OK, 2)"
  by code_simp

lemma sample_slot: "slot_of sample_stream_req 2 = 0x2000"
  by code_simp

lemma sample_stream_premises:
  defines "w \<equiv> start_world (board_env [] 3)" and "sts \<equiv> [0x8C000003, 0x8C000003 :: u32]"
  shows "working_board (world_env w) sample_hw" "malloc_works (world_env w)" "sock_works (world_env w) 5"
    "(5 :: int) \<noteq> u_fd (dma_uio (hw_dma sample_hw))"
    "descs_read (world_env w) (b_mem (hw_desc_buf sample_hw)) sts" "length sts = unat (2 :: u32)"
    "\<forall>st\<in>set sts. \<not> st_error st \<and> st_eof st \<and> st_done st \<and> st_len st \<le> slot_of sample_stream_req 2"
    "mem_reads (world_env w) (region_mem (hw_rx sample_hw)) (replicate 0x4000 0)"
    "length (replicate 0x4000 (0 :: u8)) = unat (2 :: u32) * unat (slot_of sample_stream_req 2)"
    "is_stream sample_stream_req" "\<not> opt_loopback default_options"
proof -
  have w: "world_env w = board_env [] 3" by (simp add: w_def start_world_def)
  show "malloc_works (world_env w)" unfolding w by (simp add: malloc_works_def board_env_def sample_env_def)
  show "working_board (world_env w) sample_hw" "sock_works (world_env w) 5"
    "mem_reads (world_env w) (region_mem (hw_rx sample_hw)) (replicate 0x4000 0)"
    unfolding w by (rule sample_board_works sample_sock_works sample_mem)+
  show "descs_read (world_env w) (b_mem (hw_desc_buf sample_hw)) sts"
    unfolding w sts_def using sample_descs [of "[]" 3 "b_mem (hw_desc_buf sample_hw)" 2] by (simp add: numeral_2_eq_2)
  show "\<forall>st\<in>set sts. \<not> st_error st \<and> st_eof st \<and> st_done st \<and> st_len st \<le> slot_of sample_stream_req 2"
    unfolding sample_slot sts_def by (simp add: st_defs st_len_def consts_defs)
  show "length (replicate 0x4000 (0 :: u8)) = unat (2 :: u32) * unat (slot_of sample_stream_req 2)"
    unfolding sample_slot by simp
qed (simp_all add: is_stream_def sample_stream_req_def default_options_def sample_bufs sample_uio_def sts_def)

lemma sample_images: "slot_images (replicate 0x4000 0) 0x2000 [3, 3] = [[0, 0, 0], [0, 0, 0]]"
  by (simp add: slot_images_def upt_rec [of 0] upt_rec [of 1] three_zeros)



lemma sample_stream_run:
  "\<exists>w'. stream_and_reply 5 sample_hw sample_stream_req 2 100 (start_world (board_env [] 3)) = Some (0, w')"
  using accepted_stream_on_board [OF sample_stream_accepted sample_stream_premises(11,10) sample_layout sample_stream_premises(1-9), of 100]
  by blast

section \<open>What the engines are told for a stream\<close>

lemma slot_segs:
  assumes "0 < slot"
  shows "ring_segs phys (slot * n) slot False = map (\<lambda>i. (phys + of_nat (i * slot), slot, False, False)) [0..<n]"
  unfolding ring_segs_def chunks_of_slots [OF assms]
proof (rule map_cong [OF refl])
  fix i
  assume "i \<in> set [0..<n]"
  then have "slot * Suc i \<le> slot * n" by (intro mult_le_mono2) simp
  then have "min slot (slot * n - i * slot) = slot" by (simp add: mult.commute)
  then show "(phys + of_nat (i * slot), min slot (slot * n - i * slot), False \<and> i = 0, False \<and> Suc i = n) =
      (phys + of_nat (i * slot), slot, False, False)" by simp
qed



definition long_req :: ojls_hdr where
  "long_req = \<lparr>h_magic = OJLS_PROTO_MAGIC, h_version = 1, h_type = OJLS_MSG_STREAM_REQ, h_status = 0,
     h_width = 8192, h_height = 6553, h_bitness = 8, h_ready_pct = 0, h_payload_len = 53682176\<rparr>"

definition long_hw :: hw where
  "long_hw = sample_hw\<lparr>hw_max_width := 65535, hw_max_height := 65535,
     hw_tx := (hw_tx sample_hw)\<lparr>rg_size := 0x4000000\<rparr>, hw_rx := (hw_rx sample_hw)\<lparr>rg_size := 0x4000000\<rparr>\<rparr>"


end
