(* ===== verification/OJLS_Session.thy ===== *)
theory OJLS_Session
  imports OJLS_Serve
begin

text \<open>
  What a connection looks like from outside. \<open>reply_to\<close> says what may answer a request,
  \<open>session\<close> is the protocol of a whole connection as a relation between the bytes received and
  the bytes sent; the server refines it, whatever the peer and the hardware do.
\<close>

unbundle bit_operations_syntax

section \<open>The protocol\<close>

definition reply_to :: "hw \<Rightarrow> options \<Rightarrow> ojls_hdr \<Rightarrow> u8 list \<Rightarrow> u8 list \<Rightarrow> bool" where
  "reply_to hw opt req payload bs \<longleftrightarrow>
     (case check_request hw opt req of (st, cnt) \<Rightarrow>
        if st \<noteq> OJLS_ST_OK then bs = hdr_bytes (error_hdr req st)
        else if opt_loopback opt then bs = loopback_msg req payload
        else bs = hdr_bytes (error_hdr req OJLS_ST_HW_ERROR) \<or> bs = hdr_bytes (error_hdr req OJLS_ST_HW_TIMEOUT) \<or>
          (if is_stream req then stream_msg req cnt bs else image_msg req bs))"

text \<open>A complete request: its header and the payload that the header announces.\<close>

definition request :: "u8 list \<Rightarrow> u8 list \<Rightarrow> bool" where
  "request raw payload \<longleftrightarrow>
     length raw = OJLS_PROTO_HDR_LEN \<and> h_magic (ojls_hdr_unpack raw) = OJLS_PROTO_MAGIC \<and>
     length payload = unat (h_payload_len (ojls_hdr_unpack raw))"

text \<open>The bytes of a request that broke off.\<close>

definition cut_request :: "u8 list \<Rightarrow> bool" where
  "cut_request bs \<longleftrightarrow> length bs < OJLS_PROTO_HDR_LEN \<or>
     (\<exists>raw payload. bs = raw @ payload \<and> length raw = OJLS_PROTO_HDR_LEN \<and>
        h_magic (ojls_hdr_unpack raw) = OJLS_PROTO_MAGIC \<and>
        length payload < unat (h_payload_len (ojls_hdr_unpack raw)))"

text \<open>
  \<open>session hw opt ins outs rc\<close>: having received \<open>ins\<close>, the server has sent \<open>outs\<close> and
  \<open>serve_connection\<close> returns \<open>rc\<close>. An orderly end comes after complete exchanges only.
\<close>

inductive session :: "hw \<Rightarrow> options \<Rightarrow> u8 list \<Rightarrow> u8 list \<Rightarrow> int \<Rightarrow> bool" for hw :: hw and opt :: options where
  closed: "session hw opt [] [] 0"
| exchange: "request raw payload \<Longrightarrow> reply_to hw opt (ojls_hdr_unpack raw) payload rep \<Longrightarrow>
    session hw opt ins outs rc \<Longrightarrow> session hw opt (raw @ payload @ ins) (rep @ outs) rc"
| not_ours: "length raw = OJLS_PROTO_HDR_LEN \<Longrightarrow> h_magic (ojls_hdr_unpack raw) \<noteq> OJLS_PROTO_MAGIC \<Longrightarrow>
    out @ rest = hdr_bytes (error_hdr (ojls_hdr_unpack raw) OJLS_ST_BAD_MAGIC) \<Longrightarrow> session hw opt raw out (-1)"
| lost_request: "cut_request bs \<Longrightarrow> session hw opt bs [] (-1)"
| lost_reply: "request raw payload \<Longrightarrow> reply_to hw opt (ojls_hdr_unpack raw) payload (out @ rest) \<Longrightarrow>
    session hw opt (raw @ payload) out (-1)"

inductive_cases session_nilE: "session hw opt [] outs rc"
inductive_simps session_rc: "session hw opt ins outs rc"

text \<open>Complete exchanges, in order, with what was received and sent.\<close>

type_synonym exchange = "u8 list \<times> u8 list \<times> u8 list"

definition good_exchange :: "hw \<Rightarrow> options \<Rightarrow> exchange \<Rightarrow> bool" where
  "good_exchange hw opt x \<longleftrightarrow>
     (case x of (raw, payload, rep) \<Rightarrow> request raw payload \<and> reply_to hw opt (ojls_hdr_unpack raw) payload rep)"

definition ins_of :: "exchange list \<Rightarrow> u8 list" where
  "ins_of xs = concat (map (\<lambda>(raw, payload, rep). raw @ payload) xs)"

definition outs_of :: "exchange list \<Rightarrow> u8 list" where
  "outs_of xs = concat (map (\<lambda>(raw, payload, rep). rep) xs)"

lemma session_append:
  "\<forall>x\<in>set xs. good_exchange hw opt x \<Longrightarrow> session hw opt ins outs rc \<Longrightarrow>
     session hw opt (ins_of xs @ ins) (outs_of xs @ outs) rc"
proof (induction xs)
  case (Cons x xs)
  obtain raw payload rep where x: "x = (raw, payload, rep)" by (metis prod.exhaust)
  with Cons show ?case
    using session.exchange [of raw payload hw opt rep "ins_of xs @ ins" "outs_of xs @ outs" rc]
    by (simp add: good_exchange_def ins_of_def outs_of_def)
qed (simp add: ins_of_def outs_of_def)

section \<open>What the checks establish\<close>

lemma check_request_stream:
  assumes "check_request hw opt req = (OJLS_ST_OK, cnt)" and "h_type req = OJLS_MSG_STREAM_REQ"
  shows "image_bytes_of req \<noteq> 0 \<and> h_payload_len req mod image_bytes_of req = 0 \<and>
    cnt = h_payload_len req div image_bytes_of req \<and> h_payload_len req \<noteq> 0"
  using assms
  by (auto simp: check_request_def check_size_def is_stream_def Let_def consts_defs
      split: if_splits prod.splits)

section \<open>One round of the server\<close>

text \<open>
  The outcome of a request whose header has been read: the connection goes on after a
  complete exchange, or ends as \<open>session\<close> allows.
\<close>

definition round_ok :: "hw \<Rightarrow> options \<Rightarrow> int \<Rightarrow> u8 list \<Rightarrow> world \<Rightarrow> int \<Rightarrow> world \<Rightarrow> bool" where
  "round_ok hw opt fd raw w rc w' \<longleftrightarrow> world_env w' = world_env w \<and>
     (\<exists>payload out. rcvd fd w' = rcvd fd w @ payload \<and> sent fd w' = sent fd w @ out \<and>
        (if rc = 0 then good_exchange hw opt (raw, payload, out) else session hw opt (raw @ payload) out (-1)))"

lemma cut_payload:
  "length raw = OJLS_PROTO_HDR_LEN \<Longrightarrow> h_magic (ojls_hdr_unpack raw) = OJLS_PROTO_MAGIC \<Longrightarrow>
     length payload < unat (h_payload_len (ojls_hdr_unpack raw)) \<Longrightarrow> cut_request (raw @ payload)"
  by (auto simp: cut_request_def)

lemma serve_reject_round:
  assumes r: "serve_reject fd req st w = Some (rc, w')" and raw: "length raw = OJLS_PROTO_HDR_LEN"
    "h_magic req = OJLS_PROTO_MAGIC" "req = ojls_hdr_unpack raw"
    and bad: "check_request hw opt req = (st, cnt)" "st \<noteq> OJLS_ST_OK"
  shows "round_ok hw opt fd raw w rc w'"
proof -
  let ?e = "hdr_bytes (error_hdr req st)"
  have rep: "reply_to hw opt req payload ?e" for payload
    using bad by (simp add: reply_to_def)
  from r obtain rd w1 where d: "drain fd (unat (h_payload_len req)) w = Some (rd, w1)"
    by (auto simp: serve_reject_def split: Option.bind_splits)
  from drain_contract [OF d] obtain pl where pl: "rcvd fd w1 = rcvd fd w @ pl"
    "length pl \<le> unat (h_payload_len req)" "rd = 0 \<longleftrightarrow> length pl = unat (h_payload_len req)" by blast
  have env: "world_env w1 = world_env w" using drain_emits [OF d] by (rule emits_env)
  show ?thesis
  proof (cases "rd = 0")
    case False
    with r d have w: "rc = -1" "w' = w1" by (auto simp: serve_reject_def)
    from False pl raw have "cut_request (raw @ pl)" by (intro cut_payload) auto
    then have "session hw opt (raw @ pl) [] (-1)" by (rule session.lost_request)
    with w pl(1) drain_sent [OF d] env show ?thesis
      by (auto simp: round_ok_def intro: exI [of _ pl])
  next
    case True
    with r d obtain se where s: "send_error fd req st w1 = Some (se, w')" "rc = (if se \<noteq> 0 then -1 else 0)"
      by (auto simp: serve_reject_def split: Option.bind_splits if_splits)
    from sends_error [of fd req st] s(1) obtain bs more where b: "emits (is_write fd) w1 w'"
      "sent fd w' = sent fd w1 @ bs" "bs @ more = ?e" "se = 0 \<longrightarrow> more = []"
      unfolding sends_def is_msg_def by blast
    have req: "request raw pl" using raw pl True by (simp add: request_def)
    have "rcvd fd w' = rcvd fd w1" using srv.send_rcvd s(1) unfolding send_error_def by blast
    then have io: "rcvd fd w' = rcvd fd w @ pl" "sent fd w' = sent fd w @ bs" "world_env w' = world_env w"
      using pl(1) b drain_sent [OF d] env emits_env [OF b(1)] by simp_all
    show ?thesis
    proof (cases "se = 0")
      case True
      with b have "good_exchange hw opt (raw, pl, bs)"
        using req rep raw(3) by (simp add: good_exchange_def)
      with io s(2) True show ?thesis by (auto simp: round_ok_def)
    next
      case False
      have "session hw opt (raw @ pl) bs (-1)"
        using session.lost_reply [OF req, of hw opt bs more] rep raw(3) b(3) by simp
      with io s(2) False show ?thesis by (auto simp: round_ok_def)
    qed
  qed
qed

text \<open>A payload received and then answered by a handler.\<close>

lemma handled_round:
  assumes h: "handled fd M w1 rc w'" and pl: "rcvd fd w1 = rcvd fd w @ pl" "sent fd w1 = sent fd w" "world_env w1 = world_env w"
    and req: "request raw pl" and rep: "\<And>bs. M bs \<Longrightarrow> reply_to hw opt (ojls_hdr_unpack raw) pl bs"
    and rc: "rc = 0 \<or> rc = -1"
  shows "round_ok hw opt fd raw w rc w'"
proof -
  have ne: "st_int OJLS_ST_HW_ERROR = 8" "st_int OJLS_ST_HW_TIMEOUT = 9" by (simp_all add: st_int_def consts_defs)
  from h rc obtain bs more where b: "rcvd fd w' = rcvd fd w1" "world_env w' = world_env w1" "sent fd w' = sent fd w1 @ bs"
    "M (bs @ more)" "rc = 0 \<longrightarrow> more = []" unfolding handled_def ne by auto
  have "if rc = 0 then good_exchange hw opt (raw, pl, bs) else session hw opt (raw @ pl) bs (-1)"
    using rep [OF b(4)] b(5) req by (auto simp: good_exchange_def intro: session.lost_reply)
  with b pl show ?thesis by (auto simp: round_ok_def)
qed

lemma serve_loopback_round:
  assumes r: "serve_loopback fd req lb w = Some ((rc, lb'), w')" and raw: "length raw = OJLS_PROTO_HDR_LEN"
    "h_magic req = OJLS_PROTO_MAGIC" "req = ojls_hdr_unpack raw"
    and ok: "check_request hw opt req = (OJLS_ST_OK, cnt)" "opt_loopback opt"
  shows "round_ok hw opt fd raw w rc w'"
proof -
  let ?n = "unat (h_payload_len req)"
  obtain lb1 w1 where g: "grow_loopbuf (h_payload_len req) lb w = (lb1, w1)" by (metis prod.exhaust)
  then have w1: "rcvd fd w1 = rcvd fd w" "sent fd w1 = sent fd w" "world_env w1 = world_env w"
    by (auto simp: grow_loopbuf_def sys_malloc_def free_buf_def sys_free_def Let_def split: if_splits)
  show ?thesis
  proof (cases "snd lb < h_payload_len req \<and> \<not> fst lb1")
    case True
    with r have w: "rc = -1" "w' = w1" unfolding serve_loopback_def g by simp_all
    from True have "0 < ?n" by (simp add: word_less_nat_alt)
    with raw cut_payload [of raw "[]"] have "cut_request raw" by simp
    then show ?thesis
      using w w1 session.lost_request [of raw hw opt] by (auto simp: round_ok_def)
  next
    case False
    then obtain rc1 pl w2 where v: "recv_full fd None ?n w1 = Some ((rc1, pl), w2)"
      using r unfolding serve_loopback_def g by (auto split: Option.bind_splits)
    note c = srv.recv_contract [OF v]
    have io: "rcvd fd w2 = rcvd fd w @ pl" "sent fd w2 = sent fd w" "world_env w2 = world_env w"
      using c w1 srv.recv_sent [OF v] srv.recv_env [OF v] by simp_all
    show ?thesis
    proof (cases "rc1 = 0")
      case rc1: False
      with r False v have w: "rc = -1" "w' = w2" unfolding serve_loopback_def g by auto
      from rc1 c raw have "cut_request (raw @ pl)" by (intro cut_payload) auto
      then show ?thesis
        using w io session.lost_request [of "raw @ pl" hw opt] by (auto simp: round_ok_def)
    next
      case rc1: True
      with r False v obtain rr where l: "loopback_reply fd req (Local pl) w2 = Some (rr, w')"
        "rc = (if rr \<noteq> 0 then -1 else 0)"
        unfolding serve_loopback_def g by (auto split: Option.bind_splits)
      have len: "length pl = ?n" using c rc1 by simp
      from loopback_reply_handled [OF l(1) len] check_request_stream [OF ok(1)]
      have h: "rr = 0 \<or> rr = -1" "handled fd (\<lambda>bs. bs = loopback_msg req pl) w2 rr w'" by auto
      then have "rc = rr" using l(2) by auto
      show ?thesis
        unfolding \<open>rc = rr\<close>
        by (rule handled_round [OF h(2) io]) (use raw len ok h(1) in \<open>auto simp: request_def reply_to_def\<close>)
    qed
  qed
qed

lemma serve_hw_round:
  assumes r: "serve_hw fd hw req cnt ms w = Some (rc, w')" and raw: "length raw = OJLS_PROTO_HDR_LEN"
    "h_magic req = OJLS_PROTO_MAGIC" "req = ojls_hdr_unpack raw"
    and ok: "check_request hw opt req = (OJLS_ST_OK, cnt)" "\<not> opt_loopback opt"
    and fd: "fd \<noteq> u_fd (dma_uio (hw_dma hw))"
  shows "round_ok hw opt fd raw w rc w'"
proof -
  let ?n = "unat (h_payload_len req)"
  let ?M = "if is_stream req then stream_msg req cnt else image_msg req"
  have ne: "st_int OJLS_ST_HW_ERROR = 8" "st_int OJLS_ST_HW_TIMEOUT = 9" by (simp_all add: st_int_def consts_defs)
  have codes: "of_int 8 = OJLS_ST_HW_ERROR" "of_int 9 = OJLS_ST_HW_TIMEOUT" by (simp_all add: consts_defs)
  from r obtain rc1 pl w1 where v: "recv_full fd (Some (region_mem (hw_tx hw))) ?n w = Some ((rc1, pl), w1)"
    by (auto simp: serve_hw_def split: Option.bind_splits)
  note c = srv.recv_contract [OF v]
  have io: "rcvd fd w1 = rcvd fd w @ pl" "sent fd w1 = sent fd w" "world_env w1 = world_env w"
    using c srv.recv_sent [OF v] srv.recv_env [OF v] by simp_all
  show ?thesis
  proof (cases "rc1 = 0")
    case False
    with r v have w: "rc = -1" "w' = w1" by (auto simp: serve_hw_def)
    from False c raw have "cut_request (raw @ pl)" by (intro cut_payload) auto
    then show ?thesis using w io session.lost_request [of "raw @ pl" hw opt] by (auto simp: round_ok_def)
  next
    case True
    have req: "request raw pl" using raw c True by (simp add: request_def)
    have rep: "?M bs \<Longrightarrow> reply_to hw opt (ojls_hdr_unpack raw) pl bs" for bs
      using ok raw(3) by (simp add: reply_to_def split: if_splits)
    have err: "reply_to hw opt (ojls_hdr_unpack raw) pl (hdr_bytes (error_hdr req OJLS_ST_HW_ERROR))"
      "reply_to hw opt (ojls_hdr_unpack raw) pl (hdr_bytes (error_hdr req OJLS_ST_HW_TIMEOUT))"
      using ok raw(3) by (simp_all add: reply_to_def)
    from r v True obtain st w2 where h: "(if is_stream req then stream_and_reply fd hw req cnt ms w1
        else encode_and_reply fd hw req ms w1) = Some (st, w2)"
      by (auto simp: serve_hw_def split: Option.bind_splits)
    then have hd: "handled fd ?M w1 st w2"
      using stream_and_reply_handled encode_and_reply_handled fd by (auto split: if_splits)
    show ?thesis
    proof (cases "st = 0 \<or> st = -1")
      case st: True
      with r v True h have "rc = st" "w' = w2" by (auto simp: serve_hw_def)
      with handled_round [OF hd io req rep st] show ?thesis by simp
    next
      case False
      with hd have st: "st = 8 \<or> st = 9" "rcvd fd w2 = rcvd fd w1" "world_env w2 = world_env w1" "sent fd w2 = sent fd w1"
        by (auto simp: handled_def ne)
      with r v True h obtain se where s: "send_error fd req (of_int st) w2 = Some (se, w')" "rc = (if se \<noteq> 0 then -1 else 0)"
        by (auto simp: serve_hw_def split: Option.bind_splits if_splits)
      let ?e = "hdr_bytes (error_hdr req (of_int st))"
      from sends_error [of fd req "of_int st"] s(1) obtain bs rest where b: "emits (is_write fd) w2 w'"
        "sent fd w' = sent fd w2 @ bs" "bs @ rest = ?e" "se = 0 \<longrightarrow> rest = []"
        unfolding sends_def is_msg_def by blast
      have "rcvd fd w' = rcvd fd w2" using srv.send_rcvd s(1) unfolding send_error_def by blast
      then have out: "rcvd fd w' = rcvd fd w @ pl" "sent fd w' = sent fd w @ bs" "world_env w' = world_env w"
        using io st b emits_env [OF b(1)] by simp_all
      have re: "reply_to hw opt (ojls_hdr_unpack raw) pl (bs @ rest)"
        using err st(1) unfolding b(3) codes [symmetric] by auto
      have "if rc = 0 then good_exchange hw opt (raw, pl, bs) else session hw opt (raw @ pl) bs (-1)"
        using re req b(4) s(2) by (auto simp: good_exchange_def intro: session.lost_reply)
      with out show ?thesis by (auto simp: round_ok_def)
    qed
  qed
qed

section \<open>A connection\<close>

lemma error_msg_sent:
  assumes "send_error fd req st w = Some (rc, w')"
  shows "world_env w' = world_env w \<and> rcvd fd w' = rcvd fd w \<and>
    (\<exists>bs rest. sent fd w' = sent fd w @ bs \<and> bs @ rest = hdr_bytes (error_hdr req st))"
  using assms sends_error [of fd req st] srv.send_rcvd assms [unfolded send_error_def]
  unfolding sends_def is_msg_def by (blast intro: emits_env)

text \<open>What one round of the connection loop does.\<close>

definition body_ok :: "hw \<Rightarrow> options \<Rightarrow> int \<Rightarrow> world \<Rightarrow> loopbuf + int \<times> loopbuf \<Rightarrow> world \<Rightarrow> bool" where
  "body_ok hw opt fd w r w' \<longleftrightarrow> world_env w' = world_env w \<and>
    (case r of
       Inl lb' \<Rightarrow> \<exists>x. good_exchange hw opt x \<and> rcvd fd w' = rcvd fd w @ ins_of [x] \<and> sent fd w' = sent fd w @ outs_of [x]
     | Inr (rc, lb') \<Rightarrow> \<exists>ins outs. session hw opt ins outs rc \<and> rcvd fd w' = rcvd fd w @ ins \<and> sent fd w' = sent fd w @ outs)"

lemma body_ok_round:
  assumes "round_ok hw opt fd raw u rc w'" and "rcvd fd u = rcvd fd w @ raw" "sent fd u = sent fd w" "world_env u = world_env w"
  shows "body_ok hw opt fd w (if rc \<noteq> 0 then Inr (-1, lb) else Inl lb') w'"
proof -
  from assms(1) obtain payload out where b: "world_env w' = world_env u" "rcvd fd w' = rcvd fd u @ payload"
    "sent fd w' = sent fd u @ out"
    "if rc = 0 then good_exchange hw opt (raw, payload, out) else session hw opt (raw @ payload) out (-1)"
    unfolding round_ok_def by blast
  show ?thesis
  proof (cases "rc = 0")
    case True
    with b assms(2-4) show ?thesis
      by (auto simp: body_ok_def ins_of_def outs_of_def intro!: exI [of _ "(raw, payload, out)"])
  next
    case False
    with b assms(2-4) show ?thesis by (auto simp: body_ok_def)
  qed
qed

lemma recv_full_codes: "recv_full fd dst n w = Some ((rc, bs), w') \<Longrightarrow> rc = 0 \<or> rc = -1 \<or> rc = 1 \<and> bs = []"
proof -
  assume "recv_full fd dst n w = Some ((rc, bs), w')"
  then have "fst (rc, bs) = 0 \<or> fst (rc, bs) = -1 \<or> fst (rc, bs) = 1 \<and> snd (rc, bs) = []"
    unfolding recv_full_def
    by (rule c_loop_inv [where I = "\<lambda>_ _. True" and Q = "\<lambda>a _. fst a = 0 \<or> fst a = -1 \<or> fst a = 1 \<and> snd a = []"])
      (auto simp: recv_body_def split: if_splits prod.splits rres.splits)
  then show ?thesis by simp
qed

lemma serve_body_ok:
  assumes b: "serve_body fd hw opt lb w = Some (r, w')"
    and fd: "\<not> opt_loopback opt \<Longrightarrow> fd \<noteq> u_fd (dma_uio (hw_dma hw))"
  shows "body_ok hw opt fd w r w'"
proof -
  from b obtain rc raw w1 where v: "recv_full fd None OJLS_PROTO_HDR_LEN w = Some ((rc, raw), w1)"
    by (auto simp: serve_body_def split: Option.bind_splits)
  note c = srv.recv_contract [OF v]
  have io: "rcvd fd w1 = rcvd fd w @ raw" "sent fd w1 = sent fd w" "world_env w1 = world_env w"
    using c srv.recv_sent [OF v] srv.recv_env [OF v] by simp_all
  define req where "req = ojls_hdr_unpack raw"
  obtain st cnt where chk: "check_request hw opt req = (st, cnt)" by force
  show ?thesis
  proof (cases "rc = 0")
    case False
    with recv_full_codes [OF v] b v have "rc = 1 \<and> raw = [] \<and> r = Inr (0, lb) \<or> rc = -1 \<and> r = Inr (-1, lb)" "w' = w1"
      by (auto simp: serve_body_def)
    moreover have "session hw opt raw [] (-1)"
      using False c by (intro session.lost_request) (auto simp: cut_request_def)
    ultimately show ?thesis
      using io session.closed [of hw opt] by (auto simp: body_ok_def)
  next
    case True
    with c have len: "length raw = OJLS_PROTO_HDR_LEN" by simp
    show ?thesis
    proof (cases "h_magic req = OJLS_PROTO_MAGIC")
      case False
      with b v True obtain x where e: "send_error fd req OJLS_ST_BAD_MAGIC w1 = Some (x, w')" "r = Inr (-1, lb)"
        by (auto simp: serve_body_def Let_def req_def split: Option.bind_splits)
      from error_msg_sent [OF e(1)] obtain bs rest where s: "world_env w' = world_env w1" "rcvd fd w' = rcvd fd w1"
        "sent fd w' = sent fd w1 @ bs" "bs @ rest = hdr_bytes (error_hdr req OJLS_ST_BAD_MAGIC)" by blast
      have "session hw opt raw bs (-1)"
        using len False s(4) unfolding req_def by (intro session.not_ours)
      with s io e(2) show ?thesis by (auto simp: body_ok_def)
    next
      case magic: True
      consider "st \<noteq> OJLS_ST_OK" | "st = OJLS_ST_OK" "opt_loopback opt" | "st = OJLS_ST_OK" "\<not> opt_loopback opt" by blast
      then show ?thesis
      proof cases
        case 1
        with b v True magic chk obtain rr where s: "serve_reject fd req st w1 = Some (rr, w')"
          "r = (if rr \<noteq> 0 then Inr (-1, lb) else Inl lb)"
          by (auto simp: serve_body_def Let_def req_def split: Option.bind_splits)
        from serve_reject_round [OF s(1) len magic req_def chk 1] io show ?thesis
          unfolding s(2) by (rule body_ok_round)
      next
        case 2
        with b v True magic chk obtain rr lb1 where s: "serve_loopback fd req lb w1 = Some ((rr, lb1), w')"
          "r = (if rr \<noteq> 0 then Inr (-1, lb1) else Inl lb1)"
          by (auto simp: serve_body_def Let_def req_def split: Option.bind_splits)
        from serve_loopback_round [OF s(1) len magic req_def chk [unfolded 2(1)] 2(2)] io show ?thesis
          unfolding s(2) by (rule body_ok_round)
      next
        case 3
        with b v True magic chk obtain rr where s: "serve_hw fd hw req cnt (opt_timeout_ms opt) w1 = Some (rr, w')"
          "r = (if rr \<noteq> 0 then Inr (-1, lb) else Inl lb)"
          by (auto simp: serve_body_def Let_def req_def split: Option.bind_splits)
        from serve_hw_round [OF s(1) len magic req_def chk [unfolded 3(1)] 3(2) fd [OF 3(2)]] io show ?thesis
          unfolding s(2) by (rule body_ok_round)
      qed
    qed
  qed
qed

lemma serve_connection_session:
  assumes s: "serve_connection fd hw opt w = Some (rc, w')"
    and fd: "\<not> opt_loopback opt \<Longrightarrow> fd \<noteq> u_fd (dma_uio (hw_dma hw))"
  shows "\<exists>ins outs. session hw opt ins outs rc \<and> rcvd fd w' = rcvd fd w @ ins \<and> sent fd w' = sent fd w @ outs"
proof -
  from s obtain lb u where l: "c_loop (serve_body fd hw opt) (False, 0) w = Some ((rc, lb), u)"
    and w': "w' = free_buf lb u"
    by (auto simp: serve_connection_def split: Option.bind_splits)
  have w'_io: "rcvd fd w' = rcvd fd u" "sent fd w' = sent fd u"
    by (simp_all add: w' free_buf_def sys_free_def)
  let ?I = "\<lambda>lb v. \<exists>xs. (\<forall>x\<in>set xs. good_exchange hw opt x) \<and> rcvd fd v = rcvd fd w @ ins_of xs \<and> sent fd v = sent fd w @ outs_of xs"
  have "\<exists>ins outs. session hw opt ins outs (fst (rc, lb)) \<and> rcvd fd u = rcvd fd w @ ins \<and> sent fd u = sent fd w @ outs"
    using l
  proof (rule c_loop_inv [where I = ?I])
    show "?I (False, 0) w" by (intro exI [of _ "[]"]) (simp add: ins_of_def outs_of_def)
  next
    fix lb v lb' v'
    assume "?I lb v" and b: "serve_body fd hw opt lb v = Some (Inl lb', v')"
    then obtain xs x where "\<forall>x\<in>set xs. good_exchange hw opt x" "rcvd fd v = rcvd fd w @ ins_of xs"
      "sent fd v = sent fd w @ outs_of xs" "good_exchange hw opt x" "rcvd fd v' = rcvd fd v @ ins_of [x]"
      "sent fd v' = sent fd v @ outs_of [x]"
      using serve_body_ok [OF b fd] by (auto simp: body_ok_def)
    then show "?I lb' v'" by (intro exI [of _ "xs @ [x]"]) (auto simp: ins_of_def outs_of_def)
  next
    fix lb v a v'
    assume "?I lb v" and b: "serve_body fd hw opt lb v = Some (Inr a, v')"
    then obtain xs ins outs where "\<forall>x\<in>set xs. good_exchange hw opt x" "rcvd fd v = rcvd fd w @ ins_of xs"
      "sent fd v = sent fd w @ outs_of xs" "session hw opt ins outs (fst a)" "rcvd fd v' = rcvd fd v @ ins"
      "sent fd v' = sent fd v @ outs"
      using serve_body_ok [OF b fd] by (auto simp: body_ok_def split: prod.splits)
    then show "\<exists>ins outs. session hw opt ins outs (fst a) \<and> rcvd fd v' = rcvd fd w @ ins \<and> sent fd v' = sent fd w @ outs"
      using session_append [of xs hw opt ins outs "fst a"] by (intro exI [of _ "ins_of xs @ ins"] exI [of _ "outs_of xs @ outs"]) simp
  qed
  with w'_io show ?thesis by simp
qed

text \<open>
  C1: Whatever the peer, the network and the hardware do, a connection that
  \<open>serve_connection\<close> comes back from is a session of the protocol: the bytes received are a
  sequence of complete requests followed by at most one broken one, the bytes sent are the
  replies to the complete requests in the same order followed by at most one broken reply, and
  the result is 0 only when nothing is broken. In hardware mode the DMA device's descriptor is
  not the connection.
\<close>

theorem serve_session:
  assumes s: "serve_connection fd hw opt w = Some (rc, w')"
    and fd: "\<not> opt_loopback opt \<Longrightarrow> fd \<noteq> u_fd (dma_uio (hw_dma hw))"
  shows "\<exists>ins outs. session hw opt ins outs rc \<and> rcvd fd w' = rcvd fd w @ ins \<and> sent fd w' = sent fd w @ outs"
  by (rule serve_connection_session [OF s fd])

text \<open>A loopback connection with one request of a 2x1 image, run.\<close>

definition sample_request :: "u8 list" where
  "sample_request = [83, 76, 74, 79, 1, 0, 1, 0, 2, 0, 1, 0, 8, 0, 0, 0, 2, 0, 0, 0, 7, 9]"

definition loopback_options :: options where
  "loopback_options = default_options\<lparr>opt_loopback := True\<rparr>"

lemma sample_run:
  "map_option fst (serve_connection 5 hw_zero loopback_options (start_world (sample_env sample_request))) = Some 0"
  "map_option (sent 5 \<circ> snd) (serve_connection 5 hw_zero loopback_options (start_world (sample_env sample_request))) =
     Some [83, 76, 74, 79, 1, 0, 2, 0, 2, 0, 1, 0, 8, 0, 0, 0, 2, 0, 0, 0, 7, 9]"
  by code_simp+

lemma sample_run_obtain:
  obtains w' where "serve_connection 5 hw_zero loopback_options (start_world (sample_env sample_request)) = Some (0, w')"
  using sample_run(1) by auto

theorem serve_session_witness:
  "\<exists>w' ins outs. serve_connection 5 hw_zero loopback_options (start_world (sample_env sample_request)) = Some (0, w') \<and>
     session hw_zero loopback_options ins outs 0 \<and> rcvd 5 w' = ins \<and> sent 5 w' = outs"
proof -
  obtain w' where w': "serve_connection 5 hw_zero loopback_options (start_world (sample_env sample_request)) = Some (0, w')"
    by (rule sample_run_obtain)
  from serve_session [OF w'] show ?thesis
    using w' by (auto simp: loopback_options_def start_world_def rcvd_def sent_def trace_def)
qed

section \<open>Orderly sessions\<close>

lemma session_exchanges:
  "session hw opt ins outs rc \<Longrightarrow> rc = 0 \<Longrightarrow>
     \<exists>xs. (\<forall>x\<in>set xs. good_exchange hw opt x) \<and> ins = ins_of xs \<and> outs = outs_of xs"
proof (induction rule: session.induct)
  case closed
  show ?case by (intro exI [of _ "[]"]) (simp add: ins_of_def outs_of_def)
next
  case (exchange raw payload rep ins outs rc)
  then obtain xs where "\<forall>x\<in>set xs. good_exchange hw opt x" "ins = ins_of xs" "outs = outs_of xs" by auto
  with exchange.hyps show ?case
    by (intro exI [of _ "(raw, payload, rep) # xs"]) (simp add: good_exchange_def ins_of_def outs_of_def)
qed simp_all

text \<open>In loopback mode the reply is a function of the request.\<close>

definition loopback_answer :: "hw \<Rightarrow> options \<Rightarrow> u8 list \<Rightarrow> u8 list \<Rightarrow> u8 list" where
  "loopback_answer hw opt raw payload =
     (let req = ojls_hdr_unpack raw; st = fst (check_request hw opt req)
      in if st \<noteq> OJLS_ST_OK then hdr_bytes (error_hdr req st) else loopback_msg req payload)"

lemma reply_to_loopback:
  "opt_loopback opt \<Longrightarrow> reply_to hw opt (ojls_hdr_unpack raw) payload bs \<longleftrightarrow> bs = loopback_answer hw opt raw payload"
  by (cases "check_request hw opt (ojls_hdr_unpack raw)") (auto simp: reply_to_def loopback_answer_def Let_def)

lemma serve_loopback_echo:
  assumes "serve_connection fd hw opt w = Some (0, w')" and "opt_loopback opt"
  shows "\<exists>reqs. (\<forall>(raw, payload)\<in>set reqs. request raw payload) \<and>
    rcvd fd w' = rcvd fd w @ concat (map (\<lambda>(raw, payload). raw @ payload) reqs) \<and>
    sent fd w' = sent fd w @ concat (map (\<lambda>(raw, payload). loopback_answer hw opt raw payload) reqs)"
proof -
  from serve_connection_session [OF assms(1)] assms(2) obtain ins outs where s: "session hw opt ins outs 0"
    "rcvd fd w' = rcvd fd w @ ins" "sent fd w' = sent fd w @ outs" by blast
  from session_exchanges [OF s(1) refl] obtain xs where xs: "\<forall>x\<in>set xs. good_exchange hw opt x"
    "ins = ins_of xs" "outs = outs_of xs" by blast
  have ans: "\<forall>(raw, payload, rep)\<in>set xs. request raw payload \<and> rep = loopback_answer hw opt raw payload"
    using xs(1) assms(2)
    by (auto simp: good_exchange_def reply_to_loopback)
  then have "outs = concat (map (\<lambda>(raw, payload). loopback_answer hw opt raw payload) (map (\<lambda>(r, p, _). (r, p)) xs))"
    unfolding xs(3) outs_of_def by (induction xs) auto
  moreover have "ins = concat (map (\<lambda>(raw, payload). raw @ payload) (map (\<lambda>(r, p, _). (r, p)) xs))"
    unfolding xs(2) ins_of_def by (induction xs) auto
  ultimately show ?thesis
    using s(2,3) ans by (intro exI [of _ "map (\<lambda>(r, p, _). (r, p)) xs"]) auto
qed



end
