(* ===== verification/OJLS_Client.thy ===== *)
theory OJLS_Client
  imports OJLS_CLib
begin

text \<open>
  \<open>host/ojls_client.c\<close>: the PGM reader, the connection, the one-image and the stream exchange
  with the board, and \<open>main\<close>. The host is a 64-bit machine: \<open>unsigned long\<close> and \<open>size_t\<close> are
  64 bits wide here.
\<close>

unbundle bit_operations_syntax

section \<open>PGM tokens\<close>

text \<open>
  A stream is the list of the bytes not yet read; \<open>fgetc\<close> takes the first, and gives \<open>EOF\<close> on
  the empty list.
\<close>

definition is_space :: "u8 \<Rightarrow> bool" where
  "is_space c \<longleftrightarrow> c = 32 \<or> 9 \<le> c \<and> c \<le> 13"

definition is_digit :: "u8 \<Rightarrow> bool" where
  "is_digit c \<longleftrightarrow> 48 \<le> c \<and> c \<le> 57"

text \<open>The first character that is neither white space nor in a comment.\<close>

function pgm_skip :: "u8 list \<Rightarrow> u8 option \<times> u8 list" where
  "pgm_skip [] = (None, [])"
| "pgm_skip (c # cs) =
     (if c = 35 then pgm_skip (drop 1 (dropWhile (\<lambda>x. x \<noteq> 10) cs))
      else if is_space c then pgm_skip cs
      else (Some c, cs))"
  by pat_completeness auto
termination
  by (relation "measure length")
    (auto simp: less_Suc_eq_le intro: order_trans [OF diff_le_self length_dropWhile_le])

text \<open>The digit loop, which consumes the character that ends it.\<close>

fun pgm_digits :: "u64 \<Rightarrow> u8 \<Rightarrow> u8 list \<Rightarrow> u64 \<times> u8 list" where
  "pgm_digits out c [] = (out * 10 + ucast (c - 48), [])"
| "pgm_digits out c (d # cs) =
     (let out1 = out * 10 + ucast (c - 48)
      in if is_digit d then pgm_digits out1 d cs else (out1, cs))"

definition pgm_token :: "u8 list \<Rightarrow> u64 option \<times> u8 list" where
  "pgm_token f =
     (case pgm_skip f of
        (None, f1) \<Rightarrow> (None, f1)
      | (Some c, f1) \<Rightarrow>
          if \<not> is_digit c then (None, f1)
          else (let (v, f2) = pgm_digits 0 c f1 in (Some v, f2)))"

section \<open>Loading an image\<close>

record image =
  im_width :: u16
  im_height :: u16
  im_bitness :: u8
  im_bytes :: u32
  im_pixels :: "u8 list"

text \<open>The three numbers of the header, read while each succeeds.\<close>

definition pgm_numbers :: "u8 list \<Rightarrow> ((u64 \<times> u64 \<times> u64) option) \<times> u8 list" where
  "pgm_numbers f =
     (case pgm_token f of
        (None, f1) \<Rightarrow> (None, f1)
      | (Some w, f1) \<Rightarrow>
          (case pgm_token f1 of
             (None, f2) \<Rightarrow> (None, f2)
           | (Some h, f2) \<Rightarrow>
               (case pgm_token f2 of
                  (None, f3) \<Rightarrow> (None, f3)
                | (Some maxval, f3) \<Rightarrow> (Some (w, h, maxval), f3))))"

definition pgm_header_ok :: "u64 \<Rightarrow> u64 \<Rightarrow> u64 \<Rightarrow> bool" where
  "pgm_header_ok w h maxval \<longleftrightarrow>
     \<not> (w = 0 \<or> h = 0 \<or> w > 65535 \<or> h > 65535 \<or> maxval = 0 \<or> maxval > 65535)"

text \<open>\<open>while (((1ul << bitness) - 1) < maxval) bitness++\<close>\<close>

partial_function (option) pgm_bitness :: "u8 \<Rightarrow> u64 \<Rightarrow> u8 option" where
  "pgm_bitness bitness maxval =
     (if push_bit (unat bitness) 1 - 1 < maxval then pgm_bitness (bitness + 1) maxval else Some bitness)"

text \<open>
  The byte swap over \<open>npix\<close> pixels from index \<open>i\<close> on: \<open>None\<close> when an access leaves the block
  of the pixels, which is undefined behaviour in C.
\<close>

fun pgm_swap :: "nat \<Rightarrow> nat \<Rightarrow> u8 list \<Rightarrow> u8 list option" where
  "pgm_swap 0 i px = Some px"
| "pgm_swap (Suc n) i px =
     (if 2 * i + 1 < length px
      then pgm_swap n (Suc i) (px[2 * i := px ! (2 * i + 1), 2 * i + 1 := px ! (2 * i)])
      else None)"

text \<open>The result of a load: an image, a failure that was reported, or an access out of bounds.\<close>

datatype loaded = Loaded image | LoadFailed | OutOfBounds

definition pgm_load :: "string \<Rightarrow> loaded io" where
  "pgm_load path w =
     (let (ok, w1) = sys_fopen path ''rb'' w
      in if \<not> ok then Some (LoadFailed, w1)
         else
           (let f = sys_file path w1
            in if take 2 f \<noteq> [80, 53] then Some (LoadFailed, snd (sys_fclose path w1))
               else
                 (case pgm_numbers (drop 2 f) of
                    (None, _) \<Rightarrow> Some (LoadFailed, snd (sys_fclose path w1))
                  | (Some (wd, ht, maxval), data) \<Rightarrow>
                      if \<not> pgm_header_ok wd ht maxval then Some (LoadFailed, snd (sys_fclose path w1))
                      else do {
                        bitness \<leftarrow> pgm_bitness 8 maxval;
                        let npix = wd * ht;
                        let bytes = (ucast (npix * (if maxval > 255 then 2 else 1)) :: u32);
                        let (ok2, w2) = sys_malloc (unat bytes) w1;
                        let pixels = take (unat bytes) data;
                        let img = \<lparr>im_width = ucast wd, im_height = ucast ht, im_bitness = bitness,
                                   im_bytes = bytes, im_pixels = pixels\<rparr>;
                        if \<not> ok2 then Some (LoadFailed, snd (sys_fclose path w2))
                        else if length pixels \<noteq> unat bytes
                        then Some (LoadFailed, snd (sys_fclose path (sys_free w2)))
                        else
                          (let w3 = snd (sys_fclose path w2)
                           in if maxval > 255 then
                                (case pgm_swap (unat npix) 0 pixels of
                                   None \<Rightarrow> Some (OutOfBounds, w3)
                                 | Some px \<Rightarrow> Some (Loaded (img\<lparr>im_pixels := px\<rparr>), w3))
                              else Some (Loaded img, w3))
                      })))"

section \<open>The connection and the output files\<close>

text \<open>The addresses from index \<open>i\<close> on; a failed \<open>socket\<close> leaves its -1 in \<open>fd\<close>.\<close>

fun connect_loop :: "nat \<Rightarrow> nat \<Rightarrow> int \<Rightarrow> world \<Rightarrow> int \<times> world" where
  "connect_loop 0 i fd w = (fd, w)"
| "connect_loop (Suc n) i fd w =
     (let (fd1, w1) = sys_socket w
      in if fd1 < 0 then connect_loop n (Suc i) fd1 w1
         else
           (let (ok, w2) = sys_connect fd1 i w1
            in if ok then (fd1, w2) else connect_loop n (Suc i) (-1) (sys_close fd1 w2)))"

definition connect_host :: "string \<Rightarrow> int \<Rightarrow> world \<Rightarrow> int \<times> world" where
  "connect_host host port w =
     (let (r, w1) = sys_resolve host port w
      in case r of
           None \<Rightarrow> (-1, w1)
         | Some n \<Rightarrow>
             if n = 0 then (-1, w1)
             else (let (fd, w2) = connect_loop n 0 (-1) w1 in if fd < 0 then (-1, w2) else (fd, w2)))"

definition path_stem :: "string \<Rightarrow> string" where
  "path_stem base = (case strrchr (CHR ''.'') base of Some i \<Rightarrow> take i base | None \<Rightarrow> base)"

definition jls_path :: "string \<Rightarrow> string \<Rightarrow> string" where
  "jls_path dir in_path =
     (let base = (case strrchr (CHR ''/'') in_path of Some i \<Rightarrow> drop (i + 1) in_path | None \<Rightarrow> in_path)
      in snprintf_buf 4096 (dir @ ''/'' @ path_stem base @ ''.jls''))"

definition write_jls :: "string \<Rightarrow> string \<Rightarrow> u8 list \<Rightarrow> world \<Rightarrow> int \<times> world" where
  "write_jls dir in_path data w =
     (let path = jls_path dir in_path;
          (ok, w1) = sys_fopen path ''wb'' w
      in if \<not> ok then (-1, w1)
         else (let (k, w2) = sys_fwrite path data w1;
                   (closed, w3) = sys_fclose path w2
               in (if \<not> closed \<or> k \<noteq> length data then -1 else 0, w3)))"

section \<open>The time\<close>

definition client_now_us :: "world \<Rightarrow> int \<times> world" where
  "client_now_us w = (let ((sec, nsec), w1) = sys_clock w in (sec * 1000000 + nsec div 1000, w1))"

section \<open>A stream of images\<close>

definition image_zero :: image where
  "image_zero = \<lparr>im_width = 0, im_height = 0, im_bitness = 0, im_bytes = 0, im_pixels = []\<rparr>"

text \<open>
  The loop over the paths from index \<open>i\<close> on, with the first image and the pixels so far.
  \<open>GiveUp b\<close> leaves for the label \<open>out\<close>; \<open>b\<close> says that \<open>pixels\<close> is allocated by then.
\<close>

datatype stream_load = StreamReady image "u8 list" | GiveUp bool | StreamOutOfBounds

definition same_format :: "image \<Rightarrow> image \<Rightarrow> bool" where
  "same_format img first \<longleftrightarrow>
     im_width img = im_width first \<and> im_height img = im_height first \<and>
     im_bitness img = im_bitness first \<and> im_bytes img = im_bytes first"

fun load_stream :: "u32 \<Rightarrow> nat \<Rightarrow> string list \<Rightarrow> image \<Rightarrow> u8 list \<Rightarrow> stream_load io" where
  "load_stream cnt i [] first px w = Some (StreamReady first px, w)"
| "load_stream cnt i (p # ps) first px w = do {
     (r, w1) \<leftarrow> pgm_load p w;
     case r of
       LoadFailed \<Rightarrow> Some (GiveUp (i \<noteq> 0), w1)
     | OutOfBounds \<Rightarrow> Some (StreamOutOfBounds, w1)
     | Loaded img \<Rightarrow>
         if i = 0 then
           (let (ok, w2) = sys_malloc (unat (im_bytes img) * unat cnt) w1
            in if \<not> ok then Some (GiveUp False, sys_free w2)
               else load_stream cnt (Suc i) ps img (px @ im_pixels img) (sys_free w2))
         else if \<not> same_format img first then Some (GiveUp True, sys_free w1)
         else load_stream cnt (Suc i) ps first (px @ im_pixels img) (sys_free w1)
   }"

definition stream_req :: "image \<Rightarrow> int \<Rightarrow> u32 \<Rightarrow> ojls_hdr" where
  "stream_req first ready_pct cnt =
     \<lparr>h_magic = OJLS_PROTO_MAGIC, h_version = OJLS_PROTO_VERSION, h_type = OJLS_MSG_STREAM_REQ,
      h_status = 0, h_width = im_width first, h_height = im_height first,
      h_bitness = im_bitness first, h_ready_pct = of_int ready_pct,
      h_payload_len = im_bytes first * cnt\<rparr>"

text \<open>The length table of a response, and the check that its entries add up.\<close>

definition resp_lens :: "u8 list \<Rightarrow> u32 \<Rightarrow> u32 list" where
  "resp_lens payload cnt = map (\<lambda>i. ojls_get_u32 payload (4 * i)) [0..<unat cnt]"

definition lens_add_up :: "u8 list \<Rightarrow> u32 \<Rightarrow> u32 \<Rightarrow> bool" where
  "lens_add_up payload cnt payload_len \<longleftrightarrow>
     (foldl (\<lambda>t len. t + ucast len) (ucast (cnt * 4)) (resp_lens payload cnt) :: u64) = ucast payload_len"

text \<open>The loop that writes the images; an empty one did not close and has no file.\<close>

fun write_images :: "string \<Rightarrow> u8 list \<Rightarrow> (string \<times> u32) list \<Rightarrow> u64 \<Rightarrow> world \<Rightarrow> bool \<times> world" where
  "write_images dir payload [] off w = (True, w)"
| "write_images dir payload ((path, len) # rest) off w =
     (if len = 0 then write_images dir payload rest off w
      else
        (let (rc, w1) = write_jls dir path (take (unat len) (drop (unat off) payload)) w
         in if rc \<noteq> 0 then (False, w1) else write_images dir payload rest (off + ucast len) w1))"

text \<open>The exchange on the connection: the exit status, and whether \<open>payload\<close> is allocated.\<close>

definition stream_exchange ::
  "int \<Rightarrow> string \<Rightarrow> string list \<Rightarrow> ojls_hdr \<Rightarrow> u8 list \<Rightarrow> u32 \<Rightarrow> (int \<times> bool) io" where
  "stream_exchange fd dir paths req px cnt w = do {
     let (_, w0) = client_now_us w;
     (bad, w1) \<leftarrow> any_fails
       [client_send_full fd (Local (hdr_bytes req)) OJLS_PROTO_HDR_LEN,
        client_send_full fd (Local px) (unat (h_payload_len req))] w0;
     if bad then Some ((1, False), w1)
     else do {
       ((rc, raw), w2) \<leftarrow> client_recv_full fd None OJLS_PROTO_HDR_LEN w1;
       if rc \<noteq> 0 then Some ((1, False), w2)
       else
         (let resp = ojls_hdr_unpack raw
          in if h_magic resp \<noteq> OJLS_PROTO_MAGIC then Some ((1, False), w2)
             else if h_status resp \<noteq> OJLS_ST_OK \<and> h_payload_len resp = 0 then Some ((1, False), w2)
             else if h_type resp \<noteq> OJLS_MSG_STREAM_RESP \<or> h_payload_len resp < cnt * 4
             then Some ((1, False), w2)
             else do {
               let (ok, w3) = sys_malloc (unat (h_payload_len resp)) w2;
               if \<not> ok then Some ((1, False), w3)
               else do {
                 ((rc2, payload), w4) \<leftarrow> client_recv_full fd None (unat (h_payload_len resp)) w3;
                 if rc2 \<noteq> 0 then Some ((1, True), w4)
                 else if \<not> lens_add_up payload cnt (h_payload_len resp) then Some ((1, True), w4)
                 else
                   (let (written, w5) = write_images dir payload (zip paths (resp_lens payload cnt))
                                          (ucast (cnt * 4)) w4
                    in if \<not> written then Some ((1, True), w5)
                       else (let (_, w6) = client_now_us w5
                             in Some ((if h_status resp \<noteq> OJLS_ST_OK then 1 else 0, True), w6)))
               }
             })
     }
   }"

text \<open>\<open>None\<close> as the exit status: a load ran out of bounds.\<close>

definition run_stream :: "string \<Rightarrow> int \<Rightarrow> string \<Rightarrow> int \<Rightarrow> string list \<Rightarrow> int option io" where
  "run_stream host port dir ready_pct paths w =
     (let cnt = of_nat (length paths) :: u32
      in do {
        (l, w1) \<leftarrow> load_stream cnt 0 paths image_zero [] w;
        case l of
          StreamOutOfBounds \<Rightarrow> Some (None, w1)
        | GiveUp allocated \<Rightarrow> Some (Some 1, if allocated then sys_free w1 else w1)
        | StreamReady first px \<Rightarrow>
            (let (fd, w2) = connect_host host port w1
             in if fd < 0 then Some (Some 1, sys_free w2)
                else do {
                  ((rc, allocated), w3) \<leftarrow>
                    stream_exchange fd dir paths (stream_req first ready_pct cnt) px cnt w2;
                  let w4 = sys_close fd w3;
                  let w5 = (if allocated then sys_free w4 else w4);
                  Some (Some rc, sys_free w5)
                })
      })"

section \<open>One image\<close>

definition encode_req :: "image \<Rightarrow> ojls_hdr" where
  "encode_req img =
     \<lparr>h_magic = OJLS_PROTO_MAGIC, h_version = OJLS_PROTO_VERSION, h_type = OJLS_MSG_ENCODE_REQ,
      h_status = 0, h_width = im_width img, h_height = im_height img, h_bitness = im_bitness img,
      h_ready_pct = 0, h_payload_len = im_bytes img\<rparr>"

text \<open>
  The response buffer between rounds: the size of the block (\<open>None\<close> for NULL), \<open>resp_len\<close> and
  the \<open>resp_len\<close> bytes received.
\<close>

record respbuf =
  rb_block :: "nat option"
  rb_len :: u32
  rb_data :: "u8 list"

definition free_resp :: "respbuf \<Rightarrow> world \<Rightarrow> world" where
  "free_resp rb w = (if rb_block rb \<noteq> None then sys_free w else w)"

definition grow_resp :: "respbuf \<Rightarrow> u32 \<Rightarrow> world \<Rightarrow> respbuf \<times> world" where
  "grow_resp rb len w =
     (if rb_block rb = None \<or> rb_len rb < len then
        (let w1 = free_resp rb w; (ok, w2) = sys_malloc (unat len) w1
         in (rb\<lparr>rb_block := if ok then Some (unat len) else None\<rparr>, w2))
      else (rb, w))"

fun client_rounds :: "nat \<Rightarrow> int \<Rightarrow> image \<Rightarrow> respbuf \<Rightarrow> (bool \<times> respbuf) io" where
  "client_rounds 0 fd img rb w = Some ((True, rb), w)"
| "client_rounds (Suc n) fd img rb w = do {
     let (_, w0) = client_now_us w;
     (bad, w1) \<leftarrow> any_fails
       [client_send_full fd (Local (hdr_bytes (encode_req img))) OJLS_PROTO_HDR_LEN,
        client_send_full fd (Local (im_pixels img)) (unat (im_bytes img))] w0;
     if bad then Some ((False, rb), w1)
     else do {
       ((rc, raw), w2) \<leftarrow> client_recv_full fd None OJLS_PROTO_HDR_LEN w1;
       if rc \<noteq> 0 then Some ((False, rb), w2)
       else
         (let resp = ojls_hdr_unpack raw
          in if h_magic resp \<noteq> OJLS_PROTO_MAGIC \<or> h_type resp \<noteq> OJLS_MSG_ENCODE_RESP
             then Some ((False, rb), w2)
             else if h_status resp \<noteq> OJLS_ST_OK then Some ((False, rb), w2)
             else
               (let (rb1, w3) = grow_resp rb (h_payload_len resp) w2
                in if rb_block rb1 = None then Some ((False, rb1), w3)
                   else do {
                     let rb2 = rb1\<lparr>rb_len := h_payload_len resp\<rparr>;
                     ((rc2, data), w4) \<leftarrow> client_recv_full fd None (unat (rb_len rb2)) w3;
                     let rb3 = rb2\<lparr>rb_data := data\<rparr>;
                     if rc2 \<noteq> 0 then Some ((False, rb3), w4)
                     else client_rounds n fd img rb3 (snd (client_now_us w4))
                   }))
     }
   }"

definition write_output :: "string \<Rightarrow> u8 list \<Rightarrow> world \<Rightarrow> bool \<times> world" where
  "write_output out_path data w =
     (let (ok, w1) = sys_fopen out_path ''wb'' w
      in if \<not> ok then (False, w1)
         else (let (k, w2) = sys_fwrite out_path data w1;
                   (_, w3) = sys_fclose out_path w2
               in (k = length data, w3)))"

section \<open>The program\<close>

record copts =
  c_host :: "string option"
  c_in_path :: "string option"
  c_out_path :: "string option"
  c_stream_dir :: "string option"
  c_port :: int
  c_bits :: int
  c_rounds :: int
  c_ready_pct :: int

definition default_copts :: copts where
  "default_copts = \<lparr>c_host = None, c_in_path = None, c_out_path = None, c_stream_dir = None,
     c_port = OJLS_PROTO_PORT, c_bits = 0, c_rounds = 1, c_ready_pct = 100\<rparr>"

datatype command = Quit int | Stream string int string int "string list" | Single copts

definition set_copt :: "string \<Rightarrow> string \<Rightarrow> copts \<Rightarrow> copts option" where
  "set_copt a v co = (if a = ''-p'' then Some (co\<lparr>c_port := c_atoi v\<rparr>)
     else if a = ''-b'' then Some (co\<lparr>c_bits := c_atoi v\<rparr>)
     else if a = ''-n'' then Some (co\<lparr>c_rounds := c_atoi v\<rparr>)
     else if a = ''-s'' then Some (co\<lparr>c_stream_dir := Some v\<rparr>)
     else if a = ''-r'' then Some (co\<lparr>c_ready_pct := c_atoi v\<rparr>)
     else None)"

function client_args :: "copts \<Rightarrow> string list \<Rightarrow> command" where
  "client_args co [] = Single co"
| "client_args co (a # rest) =
     (case (if rest = [] then None else set_copt a (hd rest) co) of
        Some co1 \<Rightarrow>
          if a = ''-r'' \<and> (c_ready_pct co1 < 1 \<or> c_ready_pct co1 > 100) then Quit 1
          else client_args co1 (tl rest)
      | None \<Rightarrow>
          if take 1 a = ''-'' then Quit (if a = ''-h'' \<or> a = ''--help'' then 0 else 1)
          else
            (case (c_host co, c_stream_dir co) of
               (None, _) \<Rightarrow> client_args (co\<lparr>c_host := Some a\<rparr>) rest
             | (Some host, Some dir) \<Rightarrow> Stream host (c_port co) dir (c_ready_pct co) (a # rest)
             | (Some host, None) \<Rightarrow>
                 if c_in_path co = None then client_args (co\<lparr>c_in_path := Some a\<rparr>) rest
                 else client_args (co\<lparr>c_out_path := Some a\<rparr>) rest))"
  by pat_completeness auto
termination
  by (relation "measure (\<lambda>(_, args). length args)") (auto simp: less_Suc_eq_le)

definition default_out :: "string \<Rightarrow> string" where
  "default_out in_path = snprintf_buf 4096 (path_stem in_path @ ''.jls'')"

text \<open>The override of \<open>-b\<close>: \<open>None\<close> when it does not fit the samples.\<close>

definition override_bits :: "int \<Rightarrow> image \<Rightarrow> image option" where
  "override_bits ovr img =
     (if ovr = 0 then Some img
      else if ovr < uint (im_bitness img) \<or> ovr > 16 \<or>
              (im_bytes img div (ucast (im_width img) * ucast (im_height img)) = 1 \<and> ovr > 8)
      then None
      else Some (img\<lparr>im_bitness := of_int ovr\<rparr>))"

definition single_exchange :: "string \<Rightarrow> int \<Rightarrow> nat \<Rightarrow> string \<Rightarrow> image \<Rightarrow> int io" where
  "single_exchange host port rounds out_path img w =
     (let (fd, w1) = connect_host host port w
      in if fd < 0 then Some (1, sys_free w1)
         else do {
           ((ok, rb), w2) \<leftarrow>
             client_rounds rounds fd img \<lparr>rb_block = None, rb_len = 0, rb_data = []\<rparr> w1;
           let (written, w3) = (if ok then write_output out_path (rb_data rb) w2 else (False, w2));
           let w4 = free_resp rb (sys_close fd w3);
           Some (if written then 0 else 1, sys_free w4)
         })"

definition run_single :: "copts \<Rightarrow> int option io" where
  "run_single co w =
     (case (c_host co, c_in_path co) of
        (Some host, Some in_path) \<Rightarrow>
          if c_rounds co < 1 then Some (Some 1, w)
          else
            (let out_path = (case c_out_path co of Some p \<Rightarrow> p | None \<Rightarrow> default_out in_path)
             in do {
               (r, w1) \<leftarrow> pgm_load in_path w;
               case r of
                 LoadFailed \<Rightarrow> Some (Some 1, w1)
               | OutOfBounds \<Rightarrow> Some (None, w1)
               | Loaded img0 \<Rightarrow>
                   (case override_bits (c_bits co) img0 of
                      None \<Rightarrow> Some (Some 1, sys_free w1)
                    | Some img \<Rightarrow> do {
                        (rc, w2) \<leftarrow> single_exchange host (c_port co) (nat (c_rounds co)) out_path img w1;
                        Some (Some rc, w2)
                      })
             })
      | _ \<Rightarrow> Some (Some 1, w))"

definition client_main :: "string list \<Rightarrow> int option io" where
  "client_main args w =
     (case client_args default_copts args of
        Quit code \<Rightarrow> Some (Some code, w)
      | Stream host port dir pct paths \<Rightarrow> run_stream host port dir pct paths w
      | Single co \<Rightarrow> run_single co w)"

end
