(* ===== verification/OJLS_Balance.thy ===== *)
theory OJLS_Balance
  imports OJLS_CLib
begin

text \<open>
  What a program still holds after a step: descriptors, mappings, streams and heap blocks,
  read off the history. \<open>balance n\<close> is a step that keeps \<open>n\<close> more blocks and nothing else;
  balances add up, so the balance of a composed operation follows from those of its calls.
\<close>

definition balance :: "int \<Rightarrow> world \<Rightarrow> world \<Rightarrow> bool" where
  "balance n w w' \<longleftrightarrow> same_resources w w' \<and> live_blocks (hist w') = live_blocks (hist w) + n"

lemma balance_refl [simp]: "balance 0 w w"
  by (simp add: balance_def)

lemma balance_trans: "balance m w w1 \<Longrightarrow> balance n w1 w2 \<Longrightarrow> balance (m + n) w w2"
  unfolding balance_def using same_resources_trans [of w w1 w2] by simp

text \<open>A step that keeps nothing more, after and before one that does.\<close>

lemma balance_after: "balance n w w1 \<Longrightarrow> balance 0 w1 w2 \<Longrightarrow> balance n w w2"
  using balance_trans [of n w w1 0 w2] by simp

lemma balance_before: "balance 0 w w1 \<Longrightarrow> balance n w1 w2 \<Longrightarrow> balance n w w2"
  using balance_trans [of 0 w w1 n w2] by simp

text \<open>Events that neither hold nor give back anything.\<close>

fun is_heap :: "event \<Rightarrow> bool" where
  "is_heap (EvMalloc n ok) = True"
| "is_heap EvFree = True"
| "is_heap _ = False"

lemma live_blocks_quiet: "\<not> is_heap e \<Longrightarrow> live_blocks (e # h) = live_blocks h"
  by (cases e) auto

lemma live_blocks_append: "list_all (\<lambda>e. \<not> is_heap e) es \<Longrightarrow> live_blocks (es @ h) = live_blocks h"
  by (induction es) (simp_all add: live_blocks_quiet)

lemma live_blocks_emits: "emits (\<lambda>e. \<not> is_heap e) w w' \<Longrightarrow> live_blocks (hist w') = live_blocks (hist w)"
  by (auto simp: emits_def live_blocks_append)

lemma balance_emits: "emits (\<lambda>e. \<not> is_resource e \<and> \<not> is_heap e) w w' \<Longrightarrow> balance 0 w w'"
proof -
  assume e: "emits (\<lambda>e. \<not> is_resource e \<and> \<not> is_heap e) w w'"
  then have "emits (\<lambda>e. \<not> is_resource e) w w'" "emits (\<lambda>e. \<not> is_heap e) w w'" by (auto intro: emits_mono)
  then show ?thesis by (simp add: balance_def same_resources_emits live_blocks_emits)
qed

lemma io_quiet:
  "is_read fd e \<Longrightarrow> \<not> is_resource e \<and> \<not> is_heap e" "is_write fd e \<Longrightarrow> \<not> is_resource e \<and> \<not> is_heap e"
  by (cases e; simp)+

lemma balance_read: "emits (is_read fd) w w' \<Longrightarrow> balance 0 w w'"
  by (rule balance_emits, erule emits_mono) (simp add: io_quiet)

lemma balance_write: "emits (is_write fd) w w' \<Longrightarrow> balance 0 w w'"
  by (rule balance_emits, erule emits_mono) (simp add: io_quiet)

text \<open>The calls of the C library and the kernel.\<close>

lemma balance_malloc: "sys_malloc n w = (ok, w') \<Longrightarrow> balance (if ok then 1 else 0) w w'"
  by (auto simp: sys_malloc_def Let_def balance_def same_resources_def)

lemma balance_calloc: "sys_calloc n sz w = (ok, w') \<Longrightarrow> balance (if ok then 1 else 0) w w'"
  by (auto simp: sys_calloc_def Let_def balance_def same_resources_def)

lemma balance_free: "balance (-1) w (sys_free w)"
  by (simp add: sys_free_def balance_def same_resources_def)

lemma balance_freed: "balance n w w1 \<Longrightarrow> balance (n - 1) w (sys_free w1)"
  using balance_trans [OF _ balance_free, of n w w1] by simp

lemma balance_clock: "sys_clock w = (t, w') \<Longrightarrow> balance 0 w w'"
  by (auto simp: sys_clock_def Let_def balance_def same_resources_def)

text \<open>A descriptor taken and given back, with work that balances in between.\<close>

lemma balance_fd:
  assumes "open_fds (hist w1) = add_mset fd (open_fds (hist w))" "mappings (hist w1) = mappings (hist w)"
    "open_files (hist w1) = open_files (hist w)" "live_blocks (hist w1) = live_blocks (hist w)" and "balance n w1 w2"
  shows "balance n w (sys_close fd w2)"
  using assms by (simp add: balance_def same_resources_def sys_close_def)

lemma balance_any_fails:
  assumes "any_fails ms w = Some (b, w')" and "\<And>m u r v. m \<in> set ms \<Longrightarrow> m u = Some (r, v) \<Longrightarrow> balance 0 u v"
  shows "balance 0 w w'"
  using assms
proof (induction ms arbitrary: w)
  case (Cons m ms)
  from Cons.prems(1) obtain rc w1 where m: "m w = Some (rc, w1)"
    and r: "(if rc \<noteq> 0 then Some (True, w1) else any_fails ms w1) = Some (b, w')"
    by (auto split: Option.bind_splits)
  from m have 1: "balance 0 w w1" by (intro Cons.prems(2) [of m]) simp_all
  show ?case
  proof (cases "rc = 0")
    case True
    with r have "any_fails ms w1 = Some (b, w')" by simp
    then have "balance 0 w1 w'" using Cons.IH Cons.prems(2) by (meson list.set_intros(2))
    with 1 show ?thesis by (rule balance_after)
  next
    case False
    with r 1 show ?thesis by simp
  qed
qed simp

end
