(* ===== verification/OJLS_Image.thy ===== *)
theory OJLS_Image
  imports OJLS_Client OJLS_Balance
begin

text \<open>
  The PGM reader of \<open>ojls_client.c\<close>: it reads back every image that is written in the
  format, what it loads is always well-formed, and the two inputs on which its arithmetic
  wraps.
\<close>

unbundle bit_operations_syntax

section \<open>Decimal numbers\<close>

text \<open>The decimal digits of a number as the bytes of a file.\<close>

fun dec :: "nat \<Rightarrow> u8 list" where
  "dec n = (if n < 10 then [48 + of_nat n] else dec (n div 10) @ [48 + of_nat (n mod 10)])"

declare dec.simps [simp del]

definition digit :: "nat \<Rightarrow> u8" where
  "digit k = 48 + of_nat k"

lemma digit_props:
  assumes "k < 10"
  shows "is_digit (digit k)" "\<not> is_space (digit k)" "digit k \<noteq> 35" "ucast (digit k - 48) = (of_nat k :: u64)"
proof -
  from assms have k: "k = 0 \<or> k = 1 \<or> k = 2 \<or> k = 3 \<or> k = 4 \<or> k = 5 \<or> k = 6 \<or> k = 7 \<or> k = 8 \<or> k = 9" by auto
  show "is_digit (digit k)" "\<not> is_space (digit k)" "digit k \<noteq> 35" "ucast (digit k - 48) = (of_nat k :: u64)"
    using k by (elim disjE; simp add: digit_def is_digit_def is_space_def)+
qed

lemma dec_digits: "\<exists>k ks. dec n = map digit (k # ks) \<and> (\<forall>j\<in>set (k # ks). j < 10) \<and> foldl (\<lambda>v j. v * 10 + j) 0 (k # ks) = n"
proof (induction n rule: dec.induct)
  case (1 n)
  show ?case
  proof (cases "n < 10")
    case True
    then show ?thesis
      by (intro exI [of _ n] exI [of _ "[]"]) (simp add: dec.simps digit_def)
  next
    case False
    with 1 obtain k ks where IH: "dec (n div 10) = map digit (k # ks)" "\<forall>j\<in>set (k # ks). j < 10"
      "foldl (\<lambda>v j. v * 10 + j) 0 (k # ks) = n div 10" by blast
    with False show ?thesis
      by (intro exI [of _ k] exI [of _ "ks @ [n mod 10]"]) (simp add: dec.simps [of n] digit_def)
  qed
qed

lemma pgm_digits_map:
  assumes "k < 10" "\<forall>j\<in>set ks. j < 10" and "\<not> is_digit sep"
  shows "pgm_digits (of_nat v) (digit k) (map digit ks @ sep # rest) = (of_nat (foldl (\<lambda>v j. v * 10 + j) v (k # ks)), rest)"
  using assms(1,2)
proof (induction ks arbitrary: k v)
  case Nil
  with assms(3) show ?case by (simp add: digit_props)
next
  case (Cons j ks)
  from Cons.IH [of j "v * 10 + k"] Cons.prems show ?case by (simp add: digit_props)
qed

lemma pgm_token_dec:
  assumes "\<not> is_digit sep"
  shows "pgm_token (dec n @ sep # rest) = (Some (of_nat n), rest)"
proof -
  obtain k ks where d: "dec n = map digit (k # ks)" "\<forall>j\<in>set (k # ks). j < 10" "foldl (\<lambda>v j. v * 10 + j) 0 (k # ks) = n"
    using dec_digits by blast
  then have k: "k < 10" by simp
  have "pgm_skip (dec n @ sep # rest) = (Some (digit k), map digit ks @ sep # rest)"
    using digit_props [OF k] by (simp add: d(1))
  moreover have "pgm_digits 0 (digit k) (map digit ks @ sep # rest) = (of_nat n, rest)"
    using pgm_digits_map [of k ks sep 0 rest] d assms by simp
  ultimately show ?thesis using digit_props [OF k] by (simp add: pgm_token_def)
qed

text \<open>White space and comments before a token change nothing.\<close>

lemma pgm_skip_space: "is_space c \<Longrightarrow> pgm_skip (c # cs) = pgm_skip cs"
  by (auto simp: is_space_def)

lemma skip_line: "10 \<notin> set xs \<Longrightarrow> dropWhile (\<lambda>x. x \<noteq> 10) (xs @ 10 # cs) = (10 :: u8) # cs"
  by (induction xs) auto

lemma pgm_skip_comment: "10 \<notin> set xs \<Longrightarrow> pgm_skip (35 # xs @ 10 # cs) = pgm_skip cs"
  by (simp add: skip_line)

lemma pgm_token_skip: "pgm_skip f = pgm_skip g \<Longrightarrow> pgm_token f = pgm_token g"
  by (simp add: pgm_token_def)

section \<open>The header\<close>

text \<open>A binary PGM file; \<open>lead\<close> is what may stand between the magic and the first number.\<close>

definition pgm_header :: "u8 list \<Rightarrow> nat \<Rightarrow> nat \<Rightarrow> nat \<Rightarrow> u8 list" where
  "pgm_header lead wd ht maxval = [80, 53] @ lead @ dec wd @ [32] @ dec ht @ [10] @ dec maxval @ [10]"

definition lead_ok :: "u8 list \<Rightarrow> bool" where
  "lead_ok lead \<longleftrightarrow> (\<forall>rest. pgm_skip (lead @ rest) = pgm_skip rest)"

lemma lead_comment: "10 \<notin> set xs \<Longrightarrow> lead_ok (10 # 35 # xs @ [10])"
  by (simp add: lead_ok_def skip_line is_space_def)

lemma pgm_numbers_header:
  assumes "lead_ok lead"
  shows "pgm_numbers (drop 2 (pgm_header lead wd ht maxval @ data)) = (Some (of_nat wd, of_nat ht, of_nat maxval), data)"
proof -
  have sep: "\<not> is_digit 32" "\<not> is_digit 10" by (simp_all add: is_digit_def)
  have "pgm_token (lead @ dec wd @ 32 # dec ht @ 10 # dec maxval @ 10 # data) = (Some (of_nat wd), dec ht @ 10 # dec maxval @ 10 # data)"
    using pgm_token_skip [of "lead @ dec wd @ 32 # dec ht @ 10 # dec maxval @ 10 # data"] assms pgm_token_dec [OF sep(1)]
    by (simp add: lead_ok_def)
  then show ?thesis
    by (simp add: pgm_header_def pgm_numbers_def pgm_token_dec [OF sep(2)])
qed

section \<open>The bit depth\<close>

text \<open>The smallest depth from 8 bits on that holds \<open>maxval\<close>.\<close>

definition fits_depth :: "nat \<Rightarrow> nat \<Rightarrow> bool" where
  "fits_depth maxval b \<longleftrightarrow> 8 \<le> b \<and> maxval < 2 ^ b \<and> (b = 8 \<or> 2 ^ (b - 1) \<le> maxval)"

lemma fits_depth_unique: "fits_depth m b \<Longrightarrow> fits_depth m c \<Longrightarrow> b = c"
proof -
  have le: "c \<le> b" if "fits_depth m b" "fits_depth m c" for b c
  proof (rule ccontr)
    assume "\<not> c \<le> b"
    then have "(2 :: nat) ^ b \<le> 2 ^ (c - 1)" by (intro power_increasing) simp_all
    moreover have "m < 2 ^ b" "2 ^ (c - 1) \<le> m" using that \<open>\<not> c \<le> b\<close> by (auto simp: fits_depth_def)
    ultimately show False by linarith
  qed
  show "fits_depth m b \<Longrightarrow> fits_depth m c \<Longrightarrow> b = c" using le [of b c] le [of c b] by simp
qed

lemma shift_less: "k \<le> 16 \<Longrightarrow> push_bit k 1 - 1 < (m :: u64) \<longleftrightarrow> 2 ^ k \<le> unat m"
proof -
  assume k: "k \<le> 16"
  then have "(2 :: nat) ^ k \<le> 2 ^ 16" by (intro power_increasing) simp_all
  then have u: "unat (2 ^ k :: u64) = 2 ^ k" using unat_of_nat_small(2) [of "2 ^ k"] by simp
  then have "unat (2 ^ k - 1 :: u64) = 2 ^ k - 1" by (subst unat_sub) (simp_all add: word_le_nat_alt)
  then have "push_bit k 1 - 1 < m \<longleftrightarrow> 2 ^ k - 1 < unat m" by (simp add: push_bit_eq_mult word_less_nat_alt)
  also have "\<dots> \<longleftrightarrow> 2 ^ k \<le> unat m" using one_le_power [of "2 :: nat" k] by linarith
  finally show ?thesis .
qed

lemma pgm_bitness_from:
  assumes "unat b + d = 16" and "8 \<le> unat b" and "unat m < 2 ^ 16" and "unat b = 8 \<or> 2 ^ (unat b - 1) \<le> unat m"
  shows "\<exists>c. pgm_bitness b m = Some c \<and> fits_depth (unat m) (unat c) \<and> unat c \<le> 16"
  using assms
proof (induction d arbitrary: b)
  case 0
  then have "\<not> push_bit (unat b) 1 - 1 < m" using shift_less [of "unat b" m] by simp
  with 0 show ?case by (subst pgm_bitness.simps) (simp add: fits_depth_def)
next
  case (Suc d)
  show ?case
  proof (cases "2 ^ unat b \<le> unat m")
    case True
    have "unat (b + 1) = unat b + 1" using Suc.prems(1) by (simp add: unat_word_ariths)
    with Suc.IH [of "b + 1"] Suc.prems True shift_less [of "unat b" m] show ?thesis
      by (subst pgm_bitness.simps) simp
  next
    case False
    with Suc.prems shift_less [of "unat b" m] show ?thesis
      by (subst pgm_bitness.simps) (simp add: fits_depth_def)
  qed
qed

lemma pgm_bitness_spec:
  "unat m < 2 ^ 16 \<Longrightarrow> \<exists>c. pgm_bitness 8 m = Some c \<and> fits_depth (unat m) (unat c) \<and> unat c \<le> 16"
  using pgm_bitness_from [of 8 8 m] by simp

section \<open>The byte swap\<close>

fun swap_pairs :: "u8 list \<Rightarrow> u8 list" where
  "swap_pairs (a # b # px) = b # a # swap_pairs px"
| "swap_pairs px = px"

lemma length_swap_pairs [simp]: "length (swap_pairs px) = length px"
  by (induction px rule: swap_pairs.induct) simp_all

lemma swap_swap [simp]: "swap_pairs (swap_pairs px) = px"
  by (induction px rule: swap_pairs.induct) simp_all

lemma pgm_swap_pairs:
  "length px = 2 * n \<Longrightarrow> length pre = 2 * i \<Longrightarrow> pgm_swap n i (pre @ px) = Some (pre @ swap_pairs px)"
proof (induction n arbitrary: i px pre)
  case (Suc n)
  then obtain a b qx where px: "px = a # b # qx" by (auto simp: length_Suc_conv numeral_2_eq_2)
  have "(pre @ a # b # qx)[2 * i := b, 2 * i + 1 := a] = (pre @ [b, a]) @ qx"
    using Suc.prems(2) by (simp add: list_update_append)
  moreover have "(pre @ a # b # qx) ! (2 * i) = a" "(pre @ a # b # qx) ! (2 * i + 1) = b"
    using Suc.prems(2) by (simp_all add: nth_append)
  ultimately show ?case
    using Suc.IH [of qx "pre @ [b, a]" "Suc i"] Suc.prems px by simp
qed simp

lemma pgm_swap_none: "length px < 2 * (i + n) \<Longrightarrow> 0 < n \<Longrightarrow> pgm_swap n i px = None"
proof (induction n arbitrary: i px)
  case (Suc n)
  show ?case
  proof (cases "n = 0")
    case True
    with Suc.prems show ?thesis by simp
  next
    case False
    with Suc.IH [of "px[2 * i := px ! (2 * i + 1), 2 * i + 1 := px ! (2 * i)]" "Suc i"] Suc.prems
    show ?thesis by simp
  qed
qed simp

lemma pgm_swap_length: "pgm_swap n i px = Some qx \<Longrightarrow> length qx = length px"
  by (induction n arbitrary: i px) (auto split: if_splits)

section \<open>Loading\<close>

definition file_env :: "env \<Rightarrow> string \<Rightarrow> u8 list \<Rightarrow> bool" where
  "file_env E path bs \<longleftrightarrow> (\<forall>h. env_fopen E h path ''rb'' \<and> env_file E h path = bs) \<and> (\<forall>h n. env_malloc E h n)"

text \<open>The samples of a file in the order of the wire.\<close>

definition wire_pixels :: "nat \<Rightarrow> u8 list \<Rightarrow> u8 list" where
  "wire_pixels maxval px = (if maxval > 255 then swap_pairs px else px)"

definition sample_bytes :: "nat \<Rightarrow> nat" where
  "sample_bytes maxval = (if maxval > 255 then 2 else 1)"

lemma u64_small: "n < 2 ^ 32 \<Longrightarrow> unat (of_nat n :: u64) = n"
  by (intro unat_of_nat_small(2)) simp

lemma header_words:
  assumes "wd < 65536" "ht < 65536" "0 < wd" "0 < ht" "0 < m" "m < 65536"
  shows "pgm_header_ok (of_nat wd) (of_nat ht) (of_nat m)" "(of_nat m > (255 :: u64)) = (m > 255)"
    "unat (of_nat wd * of_nat ht :: u64) = wd * ht"
    "unat (ucast (of_nat wd :: u64) :: u16) = wd" "unat (ucast (of_nat ht :: u64) :: u16) = ht"
proof -
  have u: "unat (of_nat wd :: u64) = wd" "unat (of_nat ht :: u64) = ht" "unat (of_nat m :: u64) = m"
    using assms by (auto intro: u64_small)
  then show "pgm_header_ok (of_nat wd) (of_nat ht) (of_nat m)"
    using assms by (auto simp: pgm_header_ok_def word_less_nat_alt unat_eq_0 [symmetric])
  show "(of_nat m > (255 :: u64)) = (m > 255)" by (simp add: word_less_nat_alt u)
  have "wd * ht < 65536 * 65536" using assms by (intro mult_strict_mono') simp_all
  then show "unat (of_nat wd * of_nat ht :: u64) = wd * ht" by (simp add: unat_word_ariths u)
  show "unat (ucast (of_nat wd :: u64) :: u16) = wd" "unat (ucast (of_nat ht :: u64) :: u16) = ht"
    using assms by (simp_all add: unsigned_ucast_eq u take_bit_nat_eq_self)
qed

lemma bytes_word:
  assumes "unat npix * sample_bytes m < 2 ^ 64" and "(maxval > (255 :: u64)) = (m > 255)"
  shows "unat (ucast (npix * (if maxval > 255 then 2 else 1) :: u64) :: u32) = unat npix * sample_bytes m mod 2 ^ 32"
proof -
  have "unat (npix * (if maxval > (255 :: u64) then 2 else 1)) = unat npix * sample_bytes m"
    using assms by (auto simp: sample_bytes_def unat_word_ariths)
  then show ?thesis by (simp add: unsigned_ucast_eq take_bit_eq_mod)
qed

text \<open>
  What \<open>pgm_load\<close> does with a file whose header was accepted: \<open>n\<close> is the size of the samples
  in 32 bits.
\<close>

definition loaded_image :: "nat \<Rightarrow> nat \<Rightarrow> u8 \<Rightarrow> u32 \<Rightarrow> u8 list \<Rightarrow> image" where
  "loaded_image wd ht b bytes px =
     \<lparr>im_width = of_nat wd, im_height = of_nat ht, im_bitness = b, im_bytes = bytes, im_pixels = px\<rparr>"

definition load_result :: "nat \<Rightarrow> nat \<Rightarrow> nat \<Rightarrow> u8 \<Rightarrow> u32 \<Rightarrow> u8 list \<Rightarrow> loaded" where
  "load_result wd ht m b bytes px =
     (if m > 255
      then (case pgm_swap (wd * ht) 0 px of None \<Rightarrow> OutOfBounds | Some qx \<Rightarrow> Loaded (loaded_image wd ht b bytes qx))
      else Loaded (loaded_image wd ht b bytes px))"

lemma pgm_load_numbers:
  assumes opened: "sys_fopen path ''rb'' w = (True, w1)" "sys_file path w1 = bs" "take 2 bs = [80, 53]"
    "pgm_numbers (drop 2 bs) = (Some (of_nat wd, of_nat ht, of_nat m), data)"
    and dims: "wd < 65536" "ht < 65536" "0 < wd" "0 < ht" "0 < m" "m < 65536"
    and malloc: "sys_malloc (wd * ht * sample_bytes m mod 2 ^ 32) w1 = (ok, w2)"
  obtains b bytes where "fits_depth m (unat b)" "unat b \<le> 16" "unat bytes = wd * ht * sample_bytes m mod 2 ^ 32"
    and "pgm_load path w = Some
       (if \<not> ok then (LoadFailed, snd (sys_fclose path w2))
        else if length data < unat bytes then (LoadFailed, snd (sys_fclose path (sys_free w2)))
        else (load_result wd ht m b bytes (take (unat bytes) data), snd (sys_fclose path w2)))"
proof -
  obtain b where b: "pgm_bitness 8 (of_nat m) = Some b" "fits_depth m (unat b)" "unat b \<le> 16"
    using pgm_bitness_spec [of "of_nat m"] dims(6) u64_small [of m] by auto
  note h = header_words [OF dims]
  define bytes :: u32 where "bytes = ucast (of_nat wd * of_nat ht * (if of_nat m > (255 :: u64) then 2 else 1) :: u64)"
  have "wd * ht < 65536 * 65536" using dims by (intro mult_strict_mono') simp_all
  then have "unat (of_nat wd * of_nat ht :: u64) * sample_bytes m < 2 ^ 64"
    unfolding h(3) by (simp add: sample_bytes_def mult.commute)
  then have bytes: "unat bytes = wd * ht * sample_bytes m mod 2 ^ 32"
    using bytes_word [OF _ h(2)] by (simp add: bytes_def h(3))
  have cast: "ucast (of_nat wd :: u64) = (of_nat wd :: u16)" "ucast (of_nat ht :: u64) = (of_nat ht :: u16)"
    using dims h(4,5) by (simp_all add: word_unat_eq_iff unsigned_of_nat take_bit_nat_eq_self)
  note l = pgm_load_def [of path w] opened h(1) b(1) malloc [folded bytes] h(2,3) cast
  have two: "ucast (of_nat wd * of_nat ht * 2 :: u64) = bytes" if "m > 255" using that by (simp add: bytes_def h(2))
  have one: "ucast (of_nat wd * of_nat ht :: u64) = bytes" if "\<not> m > 255" using that by (simp add: bytes_def h(2))
  show thesis
    by (rule that [OF b(2,3) bytes])
      (cases "m > 255"; simp add: l one two Let_def load_result_def loaded_image_def not_less [symmetric] min_def split: option.split)
qed

text \<open>
  C11: Every image written as a binary PGM is read back: for dimensions and a maximal value of
  16 bits, any comment after the magic, and less than 4 GiB of samples, \<open>pgm_load\<close> gives the
  dimensions, the smallest depth from 8 bits on that holds the maximal value, the size of the
  samples, and the samples with their bytes in the order of the wire.
\<close>

theorem pgm_roundtrip:
  assumes env: "file_env (world_env w) path (pgm_header lead wd ht m @ px)" and lead: "lead_ok lead"
    and dims: "wd < 65536" "ht < 65536" "0 < wd" "0 < ht" "0 < m" "m < 65536"
    and px: "length px = wd * ht * sample_bytes m" "length px < 2 ^ 32"
  shows "\<exists>img w'. pgm_load path w = Some (Loaded img, w') \<and> unat (im_width img) = wd \<and> unat (im_height img) = ht \<and>
    fits_depth m (unat (im_bitness img)) \<and> unat (im_bytes img) = length px \<and> im_pixels img = wire_pixels m px"
proof -
  have n: "wd * ht * sample_bytes m mod 2 ^ 32 = length px" using px by simp
  from env obtain w1 :: world where w1: "sys_fopen path ''rb'' w = (True, w1)" "world_env w1 = world_env w"
    "sys_file path w1 = pgm_header lead wd ht m @ px"
    by (simp add: sys_fopen_def sys_file_def file_env_def Let_def)
  obtain w2 :: world where w2: "sys_malloc (wd * ht * sample_bytes m mod 2 ^ 32) w1 = (True, w2)"
    using env w1(2) by (simp add: sys_malloc_def file_env_def Let_def)
  have magic: "take 2 (pgm_header lead wd ht m @ px) = [80, 53]" by (simp add: pgm_header_def)
  obtain b bytes where b: "fits_depth m (unat b)" "unat b \<le> 16" "unat bytes = length px"
    and r: "pgm_load path w = Some
       (if \<not> True then (LoadFailed, snd (sys_fclose path w2))
        else if length px < unat bytes then (LoadFailed, snd (sys_fclose path (sys_free w2)))
        else (load_result wd ht m b bytes (take (unat bytes) px), snd (sys_fclose path w2)))"
    by (rule pgm_load_numbers [OF w1(1,3) magic pgm_numbers_header [OF lead] dims w2, unfolded n])
  then have l: "pgm_load path w = Some (load_result wd ht m b bytes px, snd (sys_fclose path w2))" by simp
  have dim: "unat (of_nat wd :: u16) = wd" "unat (of_nat ht :: u16) = ht"
    using dims by (simp_all add: unsigned_of_nat take_bit_nat_eq_self)
  have "pgm_swap (wd * ht) 0 px = Some (swap_pairs px)" if "m > 255"
    using pgm_swap_pairs [of px "wd * ht" "[]" 0] px(1) that by (simp add: sample_bytes_def)
  with b l dim show ?thesis by (auto simp: wire_pixels_def load_result_def loaded_image_def)
qed

text \<open>A 2x1 image of 12-bit samples with a comment.\<close>

definition sample_pgm :: "u8 list" where
  "sample_pgm = pgm_header [10, 35, 120, 10] 2 1 4095 @ [1, 2, 3, 4]"

definition file_sample_env :: "u8 list \<Rightarrow> env" where
  "file_sample_env bs = (sample_env [])\<lparr>env_file := (\<lambda>h path. bs)\<rparr>"

lemma file_sample: "file_env (world_env (start_world (file_sample_env bs))) path bs"
  by (simp add: file_env_def file_sample_env_def sample_env_def start_world_def)

lemma sample_lead: "lead_ok [10, 35, 120, 10]"
  using lead_comment [of "[120]"] by simp

theorem pgm_roundtrip_witness:
  "\<exists>img w'. pgm_load ''a.pgm'' (start_world (file_sample_env sample_pgm)) = Some (Loaded img, w') \<and>
     im_pixels img = [2, 1, 4, 3] \<and> fits_depth 4095 (unat (im_bitness img))"
proof -
  from pgm_roundtrip [OF file_sample [of "pgm_header [10, 35, 120, 10] 2 1 4095 @ [1, 2, 3, 4]" "''a.pgm''"] sample_lead]
  show ?thesis unfolding sample_pgm_def by (fastforce simp: sample_bytes_def wire_pixels_def)
qed

text \<open>
  C38: The size of the samples is kept in 32 bits: a 65535 by 32769 image of 16-bit samples has
  65534 bytes by that count, so a file with 65534 bytes of samples is taken as complete, and
  the byte swap over all its pixels leaves the block that holds them.
\<close>

theorem pgm_swap_overruns:
  "\<exists>w'. pgm_load path (start_world (file_sample_env (pgm_header [10] 65535 32769 65535 @ replicate 65534 0))) = Some (OutOfBounds, w')"
proof -
  let ?data = "replicate 65534 0 :: u8 list" and ?w = "start_world (file_sample_env (pgm_header [10] 65535 32769 65535 @ replicate 65534 0))"
  have lead: "lead_ok [10]" by (simp add: lead_ok_def is_space_def)
  have n: "65535 * 32769 * sample_bytes 65535 mod 2 ^ 32 = 65534" by (simp add: sample_bytes_def)
  have dims: "(65535 :: nat) < 65536" "(32769 :: nat) < 65536" "(0 :: nat) < 65535" "(0 :: nat) < 32769" by simp_all
  have magic: "take 2 (pgm_header [10] 65535 32769 65535 @ ?data) = [80, 53]" by (simp add: pgm_header_def)
  note env = file_sample [of "pgm_header [10] 65535 32769 65535 @ ?data" path]
  from env obtain w1 :: world where w1: "sys_fopen path ''rb'' ?w = (True, w1)" "world_env w1 = world_env ?w"
    "sys_file path w1 = pgm_header [10] 65535 32769 65535 @ ?data"
    by (simp add: sys_fopen_def sys_file_def file_env_def Let_def)
  obtain w2 :: world where w2: "sys_malloc (65535 * 32769 * sample_bytes 65535 mod 2 ^ 32) w1 = (True, w2)"
    using env w1(2) by (simp add: sys_malloc_def file_env_def Let_def)
  have none: "pgm_swap (65535 * 32769) 0 ?data = None" by (rule pgm_swap_none) simp_all
  obtain b bytes where "fits_depth 65535 (unat b)" "unat b \<le> 16" and bytes: "unat bytes = 65534"
    and l: "pgm_load path ?w = Some
       (if \<not> True then (LoadFailed, snd (sys_fclose path w2))
        else if length ?data < unat bytes then (LoadFailed, snd (sys_fclose path (sys_free w2)))
        else (load_result 65535 32769 65535 b bytes (take (unat bytes) ?data), snd (sys_fclose path w2)))"
    by (rule pgm_load_numbers [OF w1(1,3) magic pgm_numbers_header [OF lead] dims dims(3,1) w2, unfolded n])
  have "load_result 65535 32769 65535 b bytes ?data = OutOfBounds"
    unfolding load_result_def none by simp
  then show ?thesis using l bytes by simp
qed

section \<open>What a load promises for any file\<close>

text \<open>
  A well-formed image: it has pixels, its depth is one the core knows, and the block of its
  samples is exactly one or two bytes for each pixel.
\<close>

definition image_ok :: "image \<Rightarrow> bool" where
  "image_ok img \<longleftrightarrow> 0 < im_width img \<and> 0 < im_height img \<and> 8 \<le> im_bitness img \<and> im_bitness img \<le> 16 \<and>
     unat (im_bytes img) = unat (im_width img) * unat (im_height img) * (if im_bitness img > 8 then 2 else 1) \<and>
     length (im_pixels img) = unat (im_bytes img)"

lemma fits_depth_wide: "fits_depth m b \<Longrightarrow> 8 < b \<longleftrightarrow> 255 < m"
proof -
  assume f: "fits_depth m b"
  show "8 < b \<longleftrightarrow> 255 < m"
  proof (cases "b = 8")
    case False
    with f have "8 \<le> b - 1" "2 ^ (b - 1) \<le> m" by (auto simp: fits_depth_def)
    then have "(2 :: nat) ^ 8 \<le> 2 ^ (b - 1)" by (intro power_increasing) simp_all
    with f False \<open>2 ^ (b - 1) \<le> m\<close> show ?thesis by (auto simp: fits_depth_def)
  qed (use f in \<open>auto simp: fits_depth_def\<close>)
qed

text \<open>The header words of an accepted file, as numbers.\<close>

lemma header_ok_words:
  assumes "pgm_header_ok wd ht maxval"
  obtains w h m where "wd = of_nat w" "ht = of_nat h" "maxval = of_nat m"
    "w < 65536" "h < 65536" "0 < w" "0 < h" "0 < m" "m < 65536"
proof (rule that)
  show "wd = of_nat (unat wd)" "ht = of_nat (unat ht)" "maxval = of_nat (unat maxval)" by simp_all
  show "unat wd < 65536" "unat ht < 65536" "0 < unat wd" "0 < unat ht" "0 < unat maxval" "unat maxval < 65536"
    using assms by (auto simp: pgm_header_ok_def word_less_nat_alt unat_gt_0)
qed

lemma loaded_image_ok:
  assumes dims: "w < 65536" "h < 65536" "0 < w" "0 < h" and b: "fits_depth m (unat b)" "unat b \<le> 16"
    and bytes: "unat bytes = w * h * sample_bytes m mod 2 ^ 32" "length px = unat bytes"
    and img: "load_result w h m b bytes px = Loaded img"
  shows "image_ok img"
proof -
  have d: "unat (of_nat w :: u16) = w" "unat (of_nat h :: u16) = h"
    using dims by (simp_all add: unsigned_of_nat take_bit_nat_eq_self)
  have "w * h \<le> 65535 * 65535" using dims by (intro mult_mono) simp_all
  then have small: "w * h < 2 ^ 32" by simp
  have nw: "w * h * sample_bytes m mod 2 ^ 32 = w * h * sample_bytes m"
  proof (cases "m > 255")
    case True
    then have "pgm_swap (w * h) 0 px \<noteq> None" using img by (auto simp: load_result_def split: option.splits)
    then have "2 * (w * h) \<le> length px" using pgm_swap_none [of px 0 "w * h"] dims by fastforce
    then have "w * h * 2 \<le> w * h * 2 mod 2 ^ 32" using bytes True by (simp add: sample_bytes_def mult.commute)
    moreover have "w * h * 2 mod 2 ^ 32 < 2 ^ 32" by simp
    ultimately show ?thesis using True by (simp add: sample_bytes_def)
  next
    case False
    with small show ?thesis by (simp add: sample_bytes_def)
  qed
  obtain qx where "img = loaded_image w h b bytes qx" "length qx = length px"
    using img by (auto simp: load_result_def split: if_splits option.splits dest: pgm_swap_length)
  moreover have "8 \<le> unat b" using b(1) by (simp add: fits_depth_def)
  ultimately show ?thesis
    using dims b(2) bytes nw d fits_depth_wide [OF b(1)]
    by (auto simp: image_ok_def loaded_image_def word_less_nat_alt word_le_nat_alt sample_bytes_def)
qed

lemma fclose_log: "snd (sys_fclose path w) = log (EvFclose path (env_fclose (world_env w) (hist w) path)) w"
  by (simp add: sys_fclose_def Let_def)

lemma pgm_load_facts:
  "\<exists>r w'. pgm_load path w = Some (r, w') \<and> world_env w' = world_env w \<and> same_resources w w' \<and>
     live_blocks (hist w') = live_blocks (hist w) + (if r = LoadFailed then 0 else 1) \<and>
     (case r of Loaded img \<Rightarrow> image_ok img | _ \<Rightarrow> True)"
proof -
  obtain ok w1 where open_file: "sys_fopen path ''rb'' w = (ok, w1)" by force
  have w1: "w1 = log (EvFopen path ''rb'' ok) w" using open_file by (auto simp: sys_fopen_def Let_def)
  define bs where "bs = sys_file path w1"
  obtain nums data where nums: "pgm_numbers (drop 2 bs) = (nums, data)" by force
  show ?thesis
  proof (cases "ok \<and> take 2 bs = [80, 53] \<and> (\<exists>wd ht m. nums = Some (wd, ht, m) \<and> pgm_header_ok wd ht m)")
    case False
    then have "pgm_load path w = Some (LoadFailed, if ok then snd (sys_fclose path w1) else w1)"
      using open_file by (cases nums) (auto simp: pgm_load_def bs_def [symmetric] nums Let_def)
    then show ?thesis using w1 by (auto simp: same_resources_def fclose_log)
  next
    case True
    then obtain wd ht m where n: "pgm_numbers (drop 2 bs) = (Some (wd, ht, m), data)" "pgm_header_ok wd ht m" using nums by blast
    from header_ok_words [OF n(2)] obtain x y z where d: "wd = of_nat x" "ht = of_nat y" "m = of_nat z"
      "x < 65536" "y < 65536" "0 < x" "0 < y" "0 < z" "z < 65536" by metis
    obtain ok2 w2 where malloc: "sys_malloc (x * y * sample_bytes z mod 2 ^ 32) w1 = (ok2, w2)" by force
    then have w2: "w2 = log (EvMalloc (x * y * sample_bytes z mod 2 ^ 32) ok2) w1" by (auto simp: sys_malloc_def Let_def)
    from True have ok: "ok" "take 2 bs = [80, 53]" by simp_all
    obtain b bytes where b: "fits_depth z (unat b)" "unat b \<le> 16" "unat bytes = x * y * sample_bytes z mod 2 ^ 32"
      and l: "pgm_load path w = Some
       (if \<not> ok2 then (LoadFailed, snd (sys_fclose path w2))
        else if length data < unat bytes then (LoadFailed, snd (sys_fclose path (sys_free w2)))
        else (load_result x y z b bytes (take (unat bytes) data), snd (sys_fclose path w2)))"
      by (rule pgm_load_numbers [OF open_file [unfolded eqTrueI [OF ok(1)]] bs_def [symmetric] ok(2) n(1) [unfolded d(1-3)] d(4-9) malloc])
    let ?r = "load_result x y z b bytes (take (unat bytes) data)"
    have img: "case ?r of Loaded img \<Rightarrow> image_ok img | _ \<Rightarrow> True" if "\<not> length data < unat bytes"
      using loaded_image_ok [OF d(4-7) b, of "take (unat bytes) data"] that by (auto split: loaded.split)
    have "?r \<noteq> LoadFailed" by (simp add: load_result_def split: option.split)
    with l img show ?thesis
      unfolding fclose_log w2 w1 using ok by (cases ok2; cases "length data < unat bytes") (auto simp: same_resources_def sys_free_def)
  qed
qed

text \<open>
  C23: Whatever the file holds, \<open>pgm_load\<close> returns; it has closed the file, holds one more block
  of the heap just when it did not report a failure, and an image it loads is well-formed.
\<close>

theorem pgm_load_safe:
  "\<exists>r w'. pgm_load path w = Some (r, w') \<and> world_env w' = world_env w \<and> same_resources w w' \<and>
     live_blocks (hist w') = live_blocks (hist w) + (if r = LoadFailed then 0 else 1) \<and>
     (case r of Loaded img \<Rightarrow> image_ok img | _ \<Rightarrow> True)"
  by (rule pgm_load_facts)

end
