(* ===== verification/OJLS_Host.thy ===== *)
theory OJLS_Host
  imports OJLS_Image
begin

text \<open>
  The exchanges of \<open>ojls_client.c\<close>: what a run holds and gives back, what the rounds of one
  image send and accept, what is written of a stream, and the names of the output files.
\<close>

unbundle bit_operations_syntax

section \<open>What a run gives back\<close>

lemma cli_recv_balance: "client_recv_full fd dst n w = Some ((rc, bs), w') \<Longrightarrow> balance 0 w w'"
  by (rule balance_read [OF cli.recv_emits])

lemma cli_send_balance: "client_send_full fd buf n w = Some (rc, w') \<Longrightarrow> balance 0 w w'"
  by (rule balance_write [OF cli.send_emits])

lemma cli_sends_balance:
  assumes "any_fails [client_send_full fd a n, client_send_full fd b m] w = Some (bad, w')"
  shows "balance 0 w w'"
  using assms by (rule balance_any_fails) (auto intro: cli_send_balance)

lemma client_now_balance: "client_now_us w = (t, w') \<Longrightarrow> balance 0 w w'"
  by (auto simp: client_now_us_def split: prod.splits dest: balance_clock)

lemma pgm_load_balance:
  assumes "pgm_load path w = Some (r, w')"
  shows "balance (if r = LoadFailed then 0 else 1) w w'"
  using pgm_load_facts [of path w] assms by (auto simp: balance_def)

text \<open>A connection that is made is one more descriptor; one that fails leaves none.\<close>

definition connected :: "int \<Rightarrow> world \<Rightarrow> world \<Rightarrow> bool" where
  "connected fd w w' \<longleftrightarrow>
     (if fd < 0 then balance 0 w w'
      else open_fds (hist w') = add_mset fd (open_fds (hist w)) \<and> mappings (hist w') = mappings (hist w) \<and>
        open_files (hist w') = open_files (hist w) \<and> live_blocks (hist w') = live_blocks (hist w))"

lemma connected_before: "balance 0 w w1 \<Longrightarrow> connected fd w1 w' \<Longrightarrow> connected fd w w'"
  by (auto simp: connected_def balance_def same_resources_def split: if_splits)

lemma connect_loop_connected:
  "connect_loop n i fd0 w = (fd, w') \<Longrightarrow> (n = 0 \<Longrightarrow> fd0 < 0) \<Longrightarrow> connected fd w w'"
proof (induction n arbitrary: i fd0 w)
  case 0
  then show ?case by (simp add: connected_def)
next
  case (Suc n)
  obtain fd1 w1 where 1: "sys_socket w = (fd1, w1)" by force
  then have w1: "w1 = log (EvSocket fd1) w" by (auto simp: sys_socket_def Let_def)
  show ?case
  proof (cases "fd1 < 0")
    case True
    with Suc 1 have "connected fd w1 w'" by simp
    moreover have "balance 0 w w1" using w1 True by (simp add: balance_def same_resources_def)
    ultimately show ?thesis by (rule connected_before [rotated])
  next
    case False
    obtain ok w2 where 2: "sys_connect fd1 i w1 = (ok, w2)" by force
    then have w2: "w2 = log (EvConnect fd1 i ok) w1" by (auto simp: sys_connect_def Let_def)
    show ?thesis
    proof (cases ok)
      case True
      with Suc.prems 1 False 2 w1 w2 show ?thesis by (auto simp: connected_def)
    next
      case bad: False
      with Suc 1 False 2 have "connected fd (sys_close fd1 w2) w'" by simp
      moreover have "balance 0 w (sys_close fd1 w2)"
        using w1 w2 False by (simp add: balance_def same_resources_def sys_close_def)
      ultimately show ?thesis by (rule connected_before [rotated])
    qed
  qed
qed

lemma connect_host_connected:
  assumes "connect_host host port w = (fd, w')"
  shows "connected fd w w'"
proof -
  obtain r w1 where 1: "sys_resolve host port w = (r, w1)" by force
  then have b: "balance 0 w w1" by (auto simp: sys_resolve_def Let_def balance_def same_resources_def)
  obtain fd2 w2 where 2: "connect_loop (the r) 0 (-1) w1 = (fd2, w2)" by force
  have "connected fd2 w1 w2" by (rule connect_loop_connected [OF 2]) simp
  with b have c: "connected fd2 w w2" by (rule connected_before)
  from b have "connected (-1) w w1" by (simp add: connected_def)
  moreover from c have "connected (-1) w w2" if "fd2 < 0" using that by (simp add: connected_def)
  ultimately show ?thesis
    using assms 1 2 c by (auto simp: connect_host_def split: option.splits if_splits)
qed

lemma connected_close: "connected fd w w1 \<Longrightarrow> \<not> fd < 0 \<Longrightarrow> balance n w1 w2 \<Longrightarrow> balance n w (sys_close fd w2)"
  by (rule balance_fd) (simp_all add: connected_def)

text \<open>Files that are written.\<close>

lemma write_jls_balance:
  assumes "write_jls dir path data w = (rc, w')"
  shows "balance 0 w w'"
  using assms by (auto simp: write_jls_def sys_fopen_def sys_fwrite_def sys_fclose_def Let_def balance_def same_resources_def split: if_splits)

lemma write_output_balance:
  assumes "write_output path data w = (ok, w')"
  shows "balance 0 w w'"
  using assms by (auto simp: write_output_def sys_fopen_def sys_fwrite_def sys_fclose_def Let_def balance_def same_resources_def split: if_splits)

lemma write_images_balance: "write_images dir payload xs off w = (ok, w') \<Longrightarrow> balance 0 w w'"
  by (induction dir payload xs off w rule: write_images.induct)
    (auto split: if_splits prod.splits dest!: write_jls_balance intro: balance_after)

lemma load_stream_later:
  "load_stream cnt i ps first px w = Some (l, w') \<Longrightarrow> i \<noteq> 0 \<Longrightarrow> l \<noteq> StreamOutOfBounds \<Longrightarrow> l \<noteq> GiveUp False \<and> balance 0 w w'"
proof (induction ps arbitrary: i px w)
  case (Cons p ps)
  from Cons.prems(1) obtain r w1 where r: "pgm_load p w = Some (r, w1)" by (auto split: Option.bind_splits)
  note b = pgm_load_balance [OF r]
  show ?case
  proof (cases r)
    case (Loaded img)
    with b have f: "balance 0 w (sys_free w1)" using balance_freed by fastforce
    from Cons.prems r Loaded have "(\<not> same_format img first \<and> l = GiveUp True \<and> w' = sys_free w1) \<or>
        load_stream cnt (Suc i) ps first (px @ im_pixels img) (sys_free w1) = Some (l, w')"
      by (auto split: if_splits)
    with f Cons.IH [of "Suc i"] Cons.prems(3) show ?thesis by (auto intro: balance_after)
  qed (use Cons.prems r b in auto)
qed auto

definition stream_blocks :: "stream_load \<Rightarrow> int" where
  "stream_blocks l = (case l of StreamReady first px \<Rightarrow> 1 | GiveUp allocated \<Rightarrow> if allocated then 1 else 0 | StreamOutOfBounds \<Rightarrow> 0)"

lemma load_stream_balance:
  assumes "load_stream cnt 0 (p # ps) first px w = Some (l, w')" "l \<noteq> StreamOutOfBounds"
  shows "balance (stream_blocks l) w w'"
proof -
  from assms(1) obtain r w1 where r: "pgm_load p w = Some (r, w1)" by (auto split: Option.bind_splits)
  note b = pgm_load_balance [OF r]
  show ?thesis
  proof (cases r)
    case (Loaded img)
    obtain ok w2 where m: "sys_malloc (unat (im_bytes img) * unat cnt) w1 = (ok, w2)" by force
    from b Loaded have "balance 1 w w1" by simp
    from balance_trans [OF this balance_malloc [OF m]] have "balance (1 + (if ok then 1 else 0)) w w2" .
    from balance_freed [OF this] have f: "balance (if ok then 1 else 0) w (sys_free w2)" by simp
    show ?thesis
    proof (cases ok)
      case False
      with assms(1) r Loaded m f show ?thesis by (auto simp: stream_blocks_def)
    next
      case True
      with assms(1) r Loaded m have "load_stream cnt 1 ps img (px @ im_pixels img) (sys_free w2) = Some (l, w')" by simp
      from load_stream_later [OF this _ assms(2)] f True have "l \<noteq> GiveUp False" "balance 1 w w'"
        by (auto intro: balance_after)
      then show ?thesis using assms(2) by (auto simp: stream_blocks_def split: stream_load.split)
    qed
  next
    case OutOfBounds
    with assms r show ?thesis by simp
  next
    case LoadFailed
    with assms r b show ?thesis by (auto simp: stream_blocks_def)
  qed
qed

lemma stream_exchange_balance:
  assumes "stream_exchange fd dir paths req px cnt w = Some ((rc, allocated), w')"
  shows "balance (if allocated then 1 else 0) w w'"
proof -
  obtain t w0 where 0: "client_now_us w = (t, w0)" by force
  from assms 0 obtain bad w1 where 1: "any_fails
       [client_send_full fd (Local (hdr_bytes req)) OJLS_PROTO_HDR_LEN,
        client_send_full fd (Local px) (unat (h_payload_len req))] w0 = Some (bad, w1)"
    by (auto simp: stream_exchange_def split: Option.bind_splits simp del: any_fails.simps)
  have b1: "balance 0 w w1" using client_now_balance [OF 0] cli_sends_balance [OF 1] by (rule balance_after)
  show ?thesis
  proof (cases bad)
    case True
    with assms 0 1 b1 show ?thesis by (simp add: stream_exchange_def del: any_fails.simps)
  next
    case ok: False
    with assms 0 1 obtain rc1 raw w2 where 2: "client_recv_full fd None OJLS_PROTO_HDR_LEN w1 = Some ((rc1, raw), w2)"
      by (auto simp: stream_exchange_def split: Option.bind_splits simp del: any_fails.simps)
    have b2: "balance 0 w w2" using b1 cli_recv_balance [OF 2] by (rule balance_after)
    let ?resp = "ojls_hdr_unpack raw"
    obtain mok w3 where 3: "sys_malloc (unat (h_payload_len ?resp)) w2 = (mok, w3)" by force
    have b3: "balance (if mok then 1 else 0) w w3" using b2 balance_malloc [OF 3] by (rule balance_before)
    show ?thesis
    proof (cases "rc1 \<noteq> 0 \<or> h_magic ?resp \<noteq> OJLS_PROTO_MAGIC \<or> h_status ?resp \<noteq> OJLS_ST_OK \<and> h_payload_len ?resp = 0 \<or>
        h_type ?resp \<noteq> OJLS_MSG_STREAM_RESP \<or> h_payload_len ?resp < cnt * 4 \<or> \<not> mok")
      case True
      with assms 0 1 ok 2 3 have "\<not> allocated" "w' = w2 \<or> w' = w3 \<and> \<not> mok"
        by (auto simp: stream_exchange_def Let_def simp del: any_fails.simps split: if_splits)
      with b2 b3 show ?thesis by auto
    next
      case False
      with assms 0 1 ok 2 3 obtain rc2 pl w4 where 4: "client_recv_full fd None (unat (h_payload_len ?resp)) w3 = Some ((rc2, pl), w4)"
        by (auto simp: stream_exchange_def Let_def simp del: any_fails.simps split: if_splits Option.bind_splits)
      have b4: "balance 1 w w4" using b3 cli_recv_balance [OF 4] False by (auto intro: balance_after)
      obtain wr w5 where 5: "write_images dir pl (zip paths (resp_lens pl cnt)) (ucast (cnt * 4)) w4 = (wr, w5)" by force
      obtain t2 w6 where 6: "client_now_us w5 = (t2, w6)" by force
      have b5: "balance 1 w w5" using b4 write_images_balance [OF 5] by (rule balance_after)
      have b6: "balance 1 w w6" using b5 client_now_balance [OF 6] by (rule balance_after)
      from assms 0 1 ok 2 3 False 4 5 6 have "allocated" "w' = w4 \<or> w' = w5 \<or> w' = w6"
        by (auto simp: stream_exchange_def Let_def simp del: any_fails.simps write_images.simps split: if_splits)
      with b4 b5 b6 show ?thesis by auto
    qed
  qed
qed

lemma run_stream_balance:
  assumes "run_stream host port dir pct (p # ps) w = Some (Some rc, w')"
  shows "balance 0 w w'"
proof -
  let ?cnt = "of_nat (length (p # ps)) :: u32"
  from assms obtain l w1 where l: "load_stream ?cnt 0 (p # ps) image_zero [] w = Some (l, w1)"
    by (auto simp: run_stream_def Let_def split: Option.bind_splits simp del: load_stream.simps)
  from assms l have "l \<noteq> StreamOutOfBounds" by (auto simp: run_stream_def simp del: load_stream.simps)
  note b = load_stream_balance [OF l this]
  show ?thesis
  proof (cases l)
    case (StreamReady first px)
    obtain fd w2 where c: "connect_host host port w1 = (fd, w2)" by force
    from StreamReady b have b1: "balance 1 w w1" by (simp add: stream_blocks_def)
    show ?thesis
    proof (cases "fd < 0")
      case True
      then have "balance 0 w1 w2" using connect_host_connected [OF c] by (simp add: connected_def)
      with b1 have "balance 0 w (sys_free w2)" using balance_freed [OF balance_after] by fastforce
      with assms l StreamReady c True show ?thesis by (simp add: run_stream_def del: load_stream.simps)
    next
      case False
      with assms l StreamReady c obtain rx al w3 where
        e: "stream_exchange fd dir (p # ps) (stream_req first pct ?cnt) px ?cnt w2 = Some ((rx, al), w3)"
        and w': "w' = sys_free (if al then sys_free (sys_close fd w3) else sys_close fd w3)"
        by (auto simp: run_stream_def Let_def split: Option.bind_splits simp del: load_stream.simps)
      have "balance (if al then 1 else 0) w1 (sys_close fd w3)"
        using connected_close [OF connect_host_connected [OF c] False stream_exchange_balance [OF e]] .
      then have "balance 0 w1 (if al then sys_free (sys_close fd w3) else sys_close fd w3)"
        using balance_freed [of 1] by fastforce
      from balance_freed [OF balance_after [OF b1 this]] show ?thesis by (simp add: w')
    qed
  next
    case (GiveUp al)
    with assms l have "w' = (if al then sys_free w1 else w1)" by (simp add: run_stream_def del: load_stream.simps)
    with b GiveUp balance_freed [of 1 w w1] show ?thesis by (auto simp: stream_blocks_def)
  next
    case StreamOutOfBounds
    with assms l show ?thesis by (simp add: run_stream_def del: load_stream.simps)
  qed
qed

text \<open>The rounds of one image: what they keep is the block of the response buffer.\<close>

definition resp_blocks :: "respbuf \<Rightarrow> int" where
  "resp_blocks rb = (if rb_block rb = None then 0 else 1)"

lemma free_resp_balance: "balance n w w1 \<Longrightarrow> balance (n - resp_blocks rb) w (free_resp rb w1)"
  using balance_freed [of n w w1] by (simp add: free_resp_def resp_blocks_def)

lemma grow_resp_balance:
  assumes "grow_resp rb len w = (rb1, w1)"
  shows "balance (resp_blocks rb1 - resp_blocks rb) w w1"
proof (cases "rb_block rb = None \<or> rb_len rb < len")
  case True
  obtain ok w2 where m: "sys_malloc (unat len) (free_resp rb w) = (ok, w2)" by force
  have "balance (- resp_blocks rb) w (free_resp rb w)" using free_resp_balance [of 0 w w rb] by simp
  from balance_trans [OF this balance_malloc [OF m]] show ?thesis
    using assms True m by (auto simp: grow_resp_def resp_blocks_def Let_def split: if_splits)
next
  case False
  with assms show ?thesis by (simp add: grow_resp_def)
qed

lemma client_rounds_balance:
  "client_rounds n fd img rb w = Some ((ok, rb'), w') \<Longrightarrow> balance (resp_blocks rb' - resp_blocks rb) w w'"
proof (induction n arbitrary: rb w)
  case (Suc n)
  obtain t w0 where 0: "client_now_us w = (t, w0)" by force
  from Suc.prems 0 obtain bad w1 where 1: "any_fails
       [client_send_full fd (Local (hdr_bytes (encode_req img))) OJLS_PROTO_HDR_LEN,
        client_send_full fd (Local (im_pixels img)) (unat (im_bytes img))] w0 = Some (bad, w1)"
    by (auto split: Option.bind_splits simp del: any_fails.simps)
  have b1: "balance 0 w w1" using client_now_balance [OF 0] cli_sends_balance [OF 1] by (rule balance_after)
  show ?case
  proof (cases bad)
    case True
    with Suc.prems 0 1 b1 show ?thesis by (auto simp del: any_fails.simps)
  next
    case fine: False
    with Suc.prems 0 1 obtain rc raw w2 where 2: "client_recv_full fd None OJLS_PROTO_HDR_LEN w1 = Some ((rc, raw), w2)"
      by (auto split: Option.bind_splits simp del: any_fails.simps)
    have b2: "balance 0 w w2" using b1 cli_recv_balance [OF 2] by (rule balance_after)
    let ?resp = "ojls_hdr_unpack raw"
    obtain rb1 w3 where 3: "grow_resp rb (h_payload_len ?resp) w2 = (rb1, w3)" by force
    have b3: "balance (resp_blocks rb1 - resp_blocks rb) w w3" using b2 grow_resp_balance [OF 3] by (rule balance_before)
    show ?thesis
    proof (cases "rc \<noteq> 0 \<or> h_magic ?resp \<noteq> OJLS_PROTO_MAGIC \<or> h_type ?resp \<noteq> OJLS_MSG_ENCODE_RESP \<or>
        h_status ?resp \<noteq> OJLS_ST_OK \<or> rb_block rb1 = None")
      case True
      with Suc.prems 0 1 fine 2 3 have "rb' = rb \<and> w' = w2 \<or> rb' = rb1 \<and> w' = w3"
        by (auto simp: Let_def simp del: any_fails.simps split: if_splits)
      with b2 b3 show ?thesis by auto
    next
      case False
      define rb2 where "rb2 = rb1\<lparr>rb_len := h_payload_len ?resp\<rparr>"
      obtain rc2 data w4 where 4: "client_recv_full fd None (unat (h_payload_len ?resp)) w3 = Some ((rc2, data), w4)"
        using False Suc.prems 0 1 fine 2 3 by (auto simp: Let_def simp del: any_fails.simps split: Option.bind_splits)
      have r: "(if rc2 \<noteq> 0 then Some ((False, rb2\<lparr>rb_data := data\<rparr>), w4)
          else client_rounds n fd img (rb2\<lparr>rb_data := data\<rparr>) (snd (client_now_us w4))) = Some ((ok, rb'), w')"
        using False Suc.prems 0 1 fine 2 3 4 by (auto simp: Let_def rb2_def simp del: any_fails.simps)
      have blocks: "resp_blocks (rb2\<lparr>rb_data := data\<rparr>) = resp_blocks rb1" by (simp add: rb2_def resp_blocks_def)
      note b4 = balance_after [OF b3 cli_recv_balance [OF 4]]
      show ?thesis
      proof (cases "rc2 = 0")
        case True
        have b5: "balance (resp_blocks rb1 - resp_blocks rb) w (snd (client_now_us w4))"
          by (rule balance_after [OF b4]) (rule client_now_balance [OF prod.collapse [symmetric]])
        from True r Suc.IH have "balance (resp_blocks rb' - resp_blocks rb1) (snd (client_now_us w4)) w'"
          using blocks by fastforce
        from balance_trans [OF b5 this] show ?thesis by simp
      next
        case False
        with r b4 blocks show ?thesis by auto
      qed
    qed
  qed
qed simp

lemma single_exchange_balance:
  assumes "single_exchange host port n path img w = Some (rc, w')"
  shows "balance (-1) w w'"
proof -
  obtain fd w1 where c: "connect_host host port w = (fd, w1)" by force
  note conn = connect_host_connected [OF c]
  show ?thesis
  proof (cases "fd < 0")
    case True
    with assms c conn balance_freed [of 0 w w1] show ?thesis by (simp add: single_exchange_def connected_def)
  next
    case False
    with assms c obtain ok rb w2 where r: "client_rounds n fd img \<lparr>rb_block = None, rb_len = 0, rb_data = []\<rparr> w1 = Some ((ok, rb), w2)"
      by (auto simp: single_exchange_def split: Option.bind_splits)
    obtain wr w3 where o: "(if ok then write_output path (rb_data rb) w2 else (False, w2)) = (wr, w3)" by force
    have "balance (resp_blocks rb) w1 w2" using client_rounds_balance [OF r] by (simp add: resp_blocks_def)
    moreover have "balance 0 w2 w3" using o by (auto split: if_splits intro: write_output_balance)
    ultimately have "balance (resp_blocks rb) w1 w3" by (rule balance_after)
    from balance_freed [OF free_resp_balance [OF connected_close [OF conn False this], of rb]]
    show ?thesis using assms c False r o by (simp add: single_exchange_def)
  qed
qed

lemma run_single_balance:
  assumes "run_single co w = Some (Some rc, w')"
  shows "balance 0 w w'"
proof (cases "c_host co = None \<or> c_in_path co = None \<or> c_rounds co < 1")
  case True
  with assms show ?thesis by (auto simp: run_single_def split: option.splits)
next
  case False
  then obtain host path where hp: "c_host co = Some host" "c_in_path co = Some path" by auto
  let ?out = "case c_out_path co of Some p \<Rightarrow> p | None \<Rightarrow> default_out path"
  from assms hp False obtain r w1 where r: "pgm_load path w = Some (r, w1)"
    by (auto simp: run_single_def Let_def split: Option.bind_splits)
  note b = pgm_load_balance [OF r]
  show ?thesis
  proof (cases r)
    case (Loaded img0)
    with b have b: "balance 1 w w1" by simp
    show ?thesis
    proof (cases "override_bits (c_bits co) img0")
      case None
      with assms hp False r Loaded balance_freed [OF b] show ?thesis by (simp add: run_single_def Let_def)
    next
      case (Some img)
      with assms hp False r Loaded obtain rc2 where
        "single_exchange host (c_port co) (nat (c_rounds co)) ?out img w1 = Some (rc2, w')"
        by (auto simp: run_single_def Let_def split: Option.bind_splits)
      from balance_trans [OF b single_exchange_balance [OF this]] show ?thesis by simp
    qed
  qed (use assms hp False r b in \<open>auto simp: run_single_def Let_def\<close>)
qed

lemma client_args_stream: "client_args co args = Stream host port dir pct paths \<Longrightarrow> paths \<noteq> []"
  by (induction co args rule: client_args.induct) (auto split: option.splits if_splits)

text \<open>
  C17: Whenever \<open>client_main\<close> comes back with an exit status, whatever the arguments, the files,
  the network and the server do, it has closed every descriptor and stream it opened and freed
  every block it allocated.
\<close>

theorem client_main_releases:
  assumes "client_main args w = Some (Some rc, w')"
  shows "open_fds (hist w') = open_fds (hist w) \<and> open_files (hist w') = open_files (hist w) \<and>
    live_blocks (hist w') = live_blocks (hist w)"
proof -
  have "balance 0 w w'"
  proof (cases "client_args default_copts args")
    case (Stream host port dir pct paths)
    then obtain p ps where "paths = p # ps" using client_args_stream by (metis list.exhaust)
    with assms Stream show ?thesis by (auto simp: client_main_def intro: run_stream_balance)
  qed (use assms in \<open>auto simp: client_main_def intro: run_single_balance\<close>)
  then show ?thesis by (simp add: balance_def same_resources_def)
qed

text \<open>A run against a server that answers the one image with three bytes.\<close>

declare pgm_bitness.simps [code]

definition host_env :: "u8 list \<Rightarrow> u8 list \<Rightarrow> env" where
  "host_env input bs = (sample_env input)\<lparr>env_file := (\<lambda>h path. bs)\<rparr>"

definition small_pgm :: "u8 list" where
  "small_pgm = [80, 53, 10, 50, 32, 49, 10, 52, 48, 57, 53, 10, 1, 2, 3, 4]"

definition sample_reply :: "u8 list" where
  "sample_reply = hdr_bytes \<lparr>h_magic = OJLS_PROTO_MAGIC, h_version = 1, h_type = OJLS_MSG_ENCODE_RESP, h_status = 0,
     h_width = 2, h_height = 1, h_bitness = 12, h_ready_pct = 0, h_payload_len = 3\<rparr> @ [7, 8, 9]"

lemma sample_client_run:
  "map_option fst (client_main [''board'', ''a''] (start_world (host_env sample_reply small_pgm))) = Some (Some 0)"
  by code_simp

theorem client_main_releases_witness:
  "\<exists>w'. client_main [''board'', ''a''] (start_world (host_env sample_reply small_pgm)) = Some (Some 0, w') \<and>
     open_fds (hist w') = {#} \<and> live_blocks (hist w') = 0"
proof -
  obtain w' where w': "client_main [''board'', ''a''] (start_world (host_env sample_reply small_pgm)) = Some (Some 0, w')"
    using sample_client_run by (auto simp: map_option_case split: option.splits)
  from client_main_releases [OF w'] have "open_fds (hist w') = {#} \<and> live_blocks (hist w') = 0" by (simp add: start_world_def)
  with w' show ?thesis by blast
qed

section \<open>The rounds of one image\<close>

text \<open>Calls that neither use a connection nor write to a file.\<close>

fun is_admin :: "event \<Rightarrow> bool" where
  "is_admin (EvRead f d n r) = False"
| "is_admin (EvWrite f bs r) = False"
| "is_admin (EvFwrite p bs k) = False"
| "is_admin e = True"

text \<open>What was written to files, newest first.\<close>

fun files_written :: "event list \<Rightarrow> (string \<times> u8 list) list" where
  "files_written [] = []"
| "files_written (EvFwrite path bs k # h) = (path, take k bs) # files_written h"
| "files_written (e # h) = files_written h"

definition same_io :: "int \<Rightarrow> world \<Rightarrow> world \<Rightarrow> bool" where
  "same_io fd w w' \<longleftrightarrow> sent fd w' = sent fd w \<and> rcvd fd w' = rcvd fd w \<and> files_written (hist w') = files_written (hist w)"

lemma files_written_quiet: "(\<And>p bs k. e \<noteq> EvFwrite p bs k) \<Longrightarrow> files_written (e # h) = files_written h"
  by (cases e) auto

lemma files_written_emits:
  assumes "emits P w w'" and "\<And>p bs k. \<not> P (EvFwrite p bs k)"
  shows "files_written (hist w') = files_written (hist w)"
proof -
  from assms(1) obtain es where es: "hist w' = es @ hist w" "list_all P es" by (auto simp: emits_def)
  from es(2) have "files_written (es @ hist w) = files_written (hist w)"
  proof (induction es)
    case (Cons e es)
    then have "P e" by simp
    then have "files_written (e # es @ hist w) = files_written (es @ hist w)"
      using assms(2) by (intro files_written_quiet) auto
    with Cons show ?case by simp
  qed simp
  with es(1) show ?thesis by simp
qed

lemma admin_io: "emits is_admin w w' \<Longrightarrow> same_io fd w w'"
proof -
  assume e: "emits is_admin w w'"
  have q: "is_admin x \<Longrightarrow> \<not> is_read fd x \<and> \<not> is_write fd x" for x by (cases x) auto
  have "sent fd w' = sent fd w" "rcvd fd w' = rcvd fd w"
    by (rule sent_emits rcvd_emits, rule emits_mono [OF e], simp add: q)+
  with files_written_emits [OF e] show ?thesis by (simp add: same_io_def)
qed

lemma same_io_trans: "same_io fd w w1 \<Longrightarrow> same_io fd w1 w2 \<Longrightarrow> same_io fd w w2"
  by (simp add: same_io_def)

lemma client_now_admin: "emits is_admin w (snd (client_now_us w))"
  by (auto simp: client_now_us_def sys_clock_def Let_def split_beta intro: emits_log)

lemma connect_loop_admin: "connect_loop n i fd0 w = (fd, w') \<Longrightarrow> emits is_admin w w'"
proof (induction n arbitrary: i fd0 w)
  case (Suc n)
  then show ?case
    by (auto simp: sys_socket_def sys_connect_def sys_close_def Let_def split: if_splits
        intro: emits_log emits_trans [of is_admin])
      (meson emits_log emits_refl emits_trans is_admin.simps)+
qed simp

lemma connect_host_admin:
  assumes "connect_host host port w = (fd, w')"
  shows "emits is_admin w w'"
proof -
  obtain r w1 where 1: "sys_resolve host port w = (r, w1)" by force
  then have e: "emits is_admin w w1" by (auto simp: sys_resolve_def Let_def intro: emits_log)
  obtain fd2 w2 where 2: "connect_loop (the r) 0 (-1) w1 = (fd2, w2)" by force
  from e connect_loop_admin [OF 2] have "emits is_admin w w2" by (rule emits_trans)
  with e assms 1 2 show ?thesis by (auto simp: connect_host_def split: option.splits if_splits)
qed

lemma grow_resp_admin: "emits is_admin w (snd (grow_resp rb len w))"
  by (auto simp: grow_resp_def free_resp_def sys_free_def sys_malloc_def Let_def intro!: emits_log)

text \<open>
  What the client takes for an answer: the header and the payload it announces. \<open>resp_room\<close>:
  the response buffer has room for the length that is kept with it.
\<close>

definition client_reply :: "u8 list \<times> u8 list \<Rightarrow> bool" where
  "client_reply r \<longleftrightarrow> (case r of (raw, data) \<Rightarrow> let resp = ojls_hdr_unpack raw in
     length raw = OJLS_PROTO_HDR_LEN \<and> h_magic resp = OJLS_PROTO_MAGIC \<and> h_type resp = OJLS_MSG_ENCODE_RESP \<and>
     h_status resp = OJLS_ST_OK \<and> length data = unat (h_payload_len resp))"

definition resp_room :: "respbuf \<Rightarrow> bool" where
  "resp_room rb \<longleftrightarrow> (case rb_block rb of Some c \<Rightarrow> unat (rb_len rb) \<le> c | None \<Rightarrow> True)"

lemma grow_resp_fits:
  assumes "resp_room rb" "grow_resp rb len w = (rb1, w1)" "rb_block rb1 = Some c"
  shows "unat len \<le> c"
  using assms by (auto simp: grow_resp_def resp_room_def Let_def not_less word_le_nat_alt split: if_splits prod.splits)

definition client_request :: "image \<Rightarrow> u8 list" where
  "client_request img = hdr_bytes (encode_req img) @ im_pixels img"

text \<open>The two sends of a request, and the reception of an answer.\<close>

lemma request_sent:
  assumes "any_fails [client_send_full fd (Local (hdr_bytes h)) OJLS_PROTO_HDR_LEN,
      client_send_full fd (Local px) n] w = Some (False, w')" and "n = length px"
  shows "sent fd w' = sent fd w @ hdr_bytes h @ px \<and> rcvd fd w' = rcvd fd w \<and> files_written (hist w') = files_written (hist w)"
proof -
  have len: "OJLS_PROTO_HDR_LEN = length (hdr_bytes h)" by (simp add: consts_defs)
  from assms obtain w1 where 1: "client_send_full fd (Local (hdr_bytes h)) (length (hdr_bytes h)) w = Some (0, w1)"
    and 2: "client_send_full fd (Local px) (length px) w1 = Some (0, w')"
    unfolding len by (auto split: Option.bind_splits if_splits)
  have f: "emits (is_write fd) v v' \<Longrightarrow> files_written (hist v') = files_written (hist v)" for v v'
    by (erule files_written_emits) simp
  show ?thesis
    using cli.send_local_ok [OF 1] cli.send_local_ok [OF 2] cli.send_rcvd [OF 1] cli.send_rcvd [OF 2]
      f [OF cli.send_emits [OF 1]] f [OF cli.send_emits [OF 2]] by simp
qed

lemma answer_received:
  assumes "client_recv_full fd dst n w = Some ((0, bs), w')"
  shows "length bs = n \<and> rcvd fd w' = rcvd fd w @ bs \<and> sent fd w' = sent fd w \<and> files_written (hist w') = files_written (hist w)"
proof -
  have "files_written (hist w') = files_written (hist w)"
    by (rule files_written_emits [OF cli.recv_emits [OF assms]]) simp
  with cli.recv_contract [OF assms] cli.recv_sent [OF assms] show ?thesis by simp
qed

text \<open>One round that goes well.\<close>

lemma client_round_ok:
  assumes run: "client_rounds (Suc n) fd img rb w = Some ((True, rb'), w')"
    and img: "length (im_pixels img) = unat (im_bytes img)" and room: "resp_room rb"
  obtains raw data rb1 w1 where "client_reply (raw, data)" "client_rounds n fd img rb1 w1 = Some ((True, rb'), w')"
    "resp_room rb1" "rb_data rb1 = data" "sent fd w1 = sent fd w @ client_request img"
    "rcvd fd w1 = rcvd fd w @ raw @ data" "files_written (hist w1) = files_written (hist w)"
proof -
  obtain t w0 where 0: "client_now_us w = (t, w0)" by force
  from run 0 obtain bad w1 where 1: "any_fails
       [client_send_full fd (Local (hdr_bytes (encode_req img))) OJLS_PROTO_HDR_LEN,
        client_send_full fd (Local (im_pixels img)) (unat (im_bytes img))] w0 = Some (bad, w1)"
    by (auto split: Option.bind_splits simp del: any_fails.simps)
  with run 0 have fine: "\<not> bad" by (auto simp del: any_fails.simps)
  with run 0 1 obtain rc raw w2 where 2: "client_recv_full fd None OJLS_PROTO_HDR_LEN w1 = Some ((rc, raw), w2)"
    by (auto split: Option.bind_splits simp del: any_fails.simps)
  let ?resp = "ojls_hdr_unpack raw"
  obtain rb1 w3 where 3: "grow_resp rb (h_payload_len ?resp) w2 = (rb1, w3)" by force
  have ok: "rc = 0" "h_magic ?resp = OJLS_PROTO_MAGIC" "h_type ?resp = OJLS_MSG_ENCODE_RESP"
    "h_status ?resp = OJLS_ST_OK" "rb_block rb1 \<noteq> None"
    using run 0 1 fine 2 3 by (auto simp: Let_def simp del: any_fails.simps split: if_splits)
  define rb2 where "rb2 = rb1\<lparr>rb_len := h_payload_len ?resp\<rparr>"
  obtain rc2 data w4 where 4: "client_recv_full fd None (unat (h_payload_len ?resp)) w3 = Some ((rc2, data), w4)"
    using ok run 0 1 fine 2 3 by (auto simp: Let_def simp del: any_fails.simps split: Option.bind_splits)
  have r: "(if rc2 \<noteq> 0 then Some ((False, rb2\<lparr>rb_data := data\<rparr>), w4)
      else client_rounds n fd img (rb2\<lparr>rb_data := data\<rparr>) (snd (client_now_us w4))) = Some ((True, rb'), w')"
    using ok run 0 1 fine 2 3 4 by (auto simp: Let_def rb2_def simp del: any_fails.simps split: if_splits)
  then have rc2: "rc2 = 0" by (auto split: if_splits)
  note a1 = answer_received [OF 2 [unfolded ok(1)]] and a2 = answer_received [OF 4 [unfolded rc2]]
  from fine 1 have s: "sent fd w1 = sent fd w0 @ client_request img" "rcvd fd w1 = rcvd fd w0"
    "files_written (hist w1) = files_written (hist w0)"
    using request_sent [OF _ img [symmetric], of fd "encode_req img" w0 w1] by (auto simp: client_request_def)
  have io: "same_io fd w w0" "same_io fd w2 w3" "same_io fd w4 (snd (client_now_us w4))"
    using admin_io [OF client_now_admin, of fd w] admin_io [OF client_now_admin, of fd w4]
      admin_io [OF grow_resp_admin, of fd w2 rb "h_payload_len ?resp"] 0 3 by simp_all
  obtain c where c: "rb_block rb1 = Some c" using ok(5) by blast
  have "unat (h_payload_len ?resp) \<le> c" by (rule grow_resp_fits [OF room 3 c])
  then have room2: "resp_room (rb2\<lparr>rb_data := data\<rparr>)" by (simp add: resp_room_def rb2_def c)
  show thesis
    by (rule that [OF _ _ room2, of raw data "snd (client_now_us w4)"])
      (use ok r rc2 a1 a2 s io in \<open>simp_all add: client_reply_def Let_def same_io_def\<close>)
qed

definition bytes_of_replies :: "(u8 list \<times> u8 list) list \<Rightarrow> u8 list" where
  "bytes_of_replies rs = concat (map (\<lambda>(raw, data). raw @ data) rs)"

lemma client_rounds_ok:
  "client_rounds n fd img rb w = Some ((True, rb'), w') \<Longrightarrow> length (im_pixels img) = unat (im_bytes img) \<Longrightarrow> resp_room rb \<Longrightarrow>
   \<exists>rs. length rs = n \<and> list_all client_reply rs \<and> sent fd w' = sent fd w @ concat (replicate n (client_request img)) \<and>
     rcvd fd w' = rcvd fd w @ bytes_of_replies rs \<and> resp_room rb' \<and>
     rb_data rb' = (if rs = [] then rb_data rb else snd (last rs)) \<and> files_written (hist w') = files_written (hist w)"
proof (induction n arbitrary: rb w)
  case 0
  then show ?case by (simp add: bytes_of_replies_def)
next
  case (Suc n)
  from client_round_ok [OF Suc.prems] obtain raw data rb1 w1 where r: "client_reply (raw, data)"
    "client_rounds n fd img rb1 w1 = Some ((True, rb'), w')" "resp_room rb1" "rb_data rb1 = data"
    "sent fd w1 = sent fd w @ client_request img" "rcvd fd w1 = rcvd fd w @ raw @ data"
    "files_written (hist w1) = files_written (hist w)" by metis
  from Suc.IH [OF r(2) Suc.prems(2) r(3)] obtain rs where rs: "length rs = n" "list_all client_reply rs"
    "sent fd w' = sent fd w1 @ concat (replicate n (client_request img))" "rcvd fd w' = rcvd fd w1 @ bytes_of_replies rs"
    "resp_room rb'" "rb_data rb' = (if rs = [] then rb_data rb1 else snd (last rs))"
    "files_written (hist w') = files_written (hist w1)" by blast
  from r rs show ?case
    by (intro exI [of _ "(raw, data) # rs"]) (auto simp: bytes_of_replies_def)
qed

lemma write_output_io:
  assumes "write_output path data w = (True, w')"
  shows "sent fd w' = sent fd w \<and> rcvd fd w' = rcvd fd w \<and> files_written (hist w') = (path, data) # files_written (hist w)"
  using assms by (auto simp: write_output_def sys_fopen_def sys_fwrite_def sys_fclose_def Let_def split: if_splits)

lemma free_resp_admin: "emits is_admin w (free_resp rb w)"
  by (auto simp: free_resp_def sys_free_def intro!: emits_log)


definition sample_image :: image where
  "sample_image = loaded_image 2 1 12 4 [2, 1, 4, 3]"

lemma sample_image_ok: "image_ok sample_image"
  by (simp add: image_ok_def sample_image_def loaded_image_def)

lemma sample_exchange_run:
  "map_option fst (single_exchange ''board'' 19020 1 ''a.jls'' sample_image (start_world (host_env sample_reply small_pgm))) = Some 0"
  by code_simp


section \<open>The images of a stream\<close>

text \<open>
  The stretches of the payload that \<open>write_images\<close> hands to \<open>write_jls\<close>: the images one after
  the other behind the table, those of length 0 skipped.
\<close>

fun stretches :: "u8 list \<Rightarrow> nat \<Rightarrow> (string \<times> u32) list \<Rightarrow> (string \<times> u8 list) list" where
  "stretches payload off [] = []"
| "stretches payload off ((path, len) # rest) =
     (if len = 0 then stretches payload off rest
      else (path, take (unat len) (drop off payload)) # stretches payload (off + unat len) rest)"

definition jls_file :: "string \<Rightarrow> string \<times> u8 list \<Rightarrow> string \<times> u8 list" where
  "jls_file dir x = (jls_path dir (fst x), snd x)"

lemma write_jls_ok:
  assumes "write_jls dir path data w = (0, w')"
  shows "files_written (hist w') = (jls_path dir path, data) # files_written (hist w)"
  using assms by (auto simp: write_jls_def sys_fopen_def sys_fwrite_def sys_fclose_def Let_def split: if_splits)

lemma write_images_ok:
  "write_images dir payload xs off w = (True, w') \<Longrightarrow> unat off + sum_list (map (unat \<circ> snd) xs) < 2 ^ 64 \<Longrightarrow>
     files_written (hist w') = rev (map (jls_file dir) (stretches payload (unat off) xs)) @ files_written (hist w)"
proof (induction dir payload xs off w rule: write_images.induct)
  case (2 dir payload path len rest off w)
  show ?case
  proof (cases "len = 0")
    case False
    obtain rc w1 where j: "write_jls dir path (take (unat len) (drop (unat off) payload)) w = (rc, w1)" by force
    with 2(3) False have rc: "rc = 0" by (auto split: if_splits)
    have off: "unat (off + ucast len) = unat off + unat len"
      using 2(4) by (simp add: unat_word_ariths unat_widen)
    with 2(2) [OF False j [symmetric] refl] 2(3,4) j rc False write_jls_ok [of dir path _ w w1] show ?thesis
      by (simp add: jls_file_def)
  qed (use 2 in simp)
qed simp

lemma write_images_wire:
  "write_images dir payload xs off w = (ok, w') \<Longrightarrow> sent fd w' = sent fd w \<and> rcvd fd w' = rcvd fd w"
proof (induction dir payload xs off w rule: write_images.induct)
  case (2 dir payload path len rest off w)
  have "write_jls dir path data w = (rc, w1) \<Longrightarrow> sent fd w1 = sent fd w \<and> rcvd fd w1 = rcvd fd w" for rc data w1
    by (auto simp: write_jls_def sys_fopen_def sys_fwrite_def sys_fclose_def Let_def split: if_splits)
  with 2 show ?case by (auto split: if_splits prod.splits)
qed simp

text \<open>The stretches that add up to the payload lie inside it, and are all of it.\<close>

lemma stretches_cover:
  "off + sum_list (map (unat \<circ> snd) xs) = length payload \<Longrightarrow>
     concat (map snd (stretches payload off xs)) = drop off payload \<and>
     map (\<lambda>(p, bs). (p, length bs)) (stretches payload off xs) = map (\<lambda>(p, l). (p, unat l)) (filter (\<lambda>(p, l). l \<noteq> 0) xs)"
proof (induction payload off xs rule: stretches.induct)
  case (2 payload off path len rest)
  show ?case
  proof (cases "len = 0")
    case False
    have "take (unat len) (drop off payload) @ drop (off + unat len) payload = drop off payload"
      by (metis add.commute append_take_drop_id drop_drop)
    with False 2 show ?thesis by (auto simp: min_def)
  qed (use 2 in simp)
qed simp

text \<open>The 64-bit sum of the lengths does not wrap: the check is one of numbers.\<close>

lemma lens_fold:
  "unat a + sum_list (map unat (lens :: u32 list)) < 2 ^ 64 \<Longrightarrow>
     unat (foldl (\<lambda>t len. t + ucast len) (a :: u64) lens) = unat a + sum_list (map unat lens)"
proof (induction lens arbitrary: a)
  case (Cons len lens)
  then have "unat (a + ucast len) = unat a + unat len" by (simp add: unat_word_ariths unat_widen)
  with Cons.IH [of "a + ucast len"] Cons.prems show ?case by simp
qed simp

lemma lens_bound: "sum_list (map unat (lens :: u32 list)) \<le> length lens * (2 ^ 32 - 1)"
proof (induction lens)
  case (Cons len lens)
  have "unat len \<le> 2 ^ 32 - 1" using unat_u32_less [of len] by simp
  with Cons show ?case by simp
qed simp

lemma lens_add_up_iff:
  "lens_add_up payload cnt plen \<longleftrightarrow> unat (cnt * 4) + sum_list (map unat (resp_lens payload cnt)) = unat plen"
proof -
  let ?ls = "resp_lens payload cnt" and ?s = "unat (cnt * 4) + sum_list (map unat (resp_lens payload cnt))"
  have "sum_list (map unat ?ls) \<le> unat cnt * (2 ^ 32 - 1)" using lens_bound [of ?ls] by (simp add: resp_lens_def)
  also have "\<dots> \<le> (2 ^ 32 - 1) * (2 ^ 32 - 1)" using unat_u32_less [of cnt] by (intro mult_right_mono) simp_all
  finally have "?s < 2 ^ 64" using unat_u32_less [of "cnt * 4"] by simp
  then have "unat (foldl (\<lambda>t len. t + ucast len) (ucast (cnt * 4) :: u64) ?ls) = ?s"
    using lens_fold [of "ucast (cnt * 4)" ?ls] by (simp add: unat_widen)
  then show ?thesis by (simp add: lens_add_up_def word_unat_eq_iff unat_widen)
qed

text \<open>An exchange that reports success.\<close>

lemma stream_exchange_ok:
  assumes run: "stream_exchange fd dir paths req px cnt w = Some ((0, al), w')"
    and px: "length px = unat (h_payload_len req)" and paths: "length paths = unat cnt"
  obtains raw payload where "length raw = OJLS_PROTO_HDR_LEN" "h_magic (ojls_hdr_unpack raw) = OJLS_PROTO_MAGIC"
    "h_type (ojls_hdr_unpack raw) = OJLS_MSG_STREAM_RESP" "h_status (ojls_hdr_unpack raw) = OJLS_ST_OK"
    "length payload = unat (h_payload_len (ojls_hdr_unpack raw))"
    "unat (cnt * 4) + sum_list (map unat (resp_lens payload cnt)) = length payload"
    "sent fd w' = sent fd w @ hdr_bytes req @ px" "rcvd fd w' = rcvd fd w @ raw @ payload"
    "files_written (hist w') =
       rev (map (jls_file dir) (stretches payload (unat (cnt * 4)) (zip paths (resp_lens payload cnt)))) @ files_written (hist w)"
proof -
  obtain t w0 where 0: "client_now_us w = (t, w0)" by force
  from run 0 obtain bad w1 where 1: "any_fails
       [client_send_full fd (Local (hdr_bytes req)) OJLS_PROTO_HDR_LEN,
        client_send_full fd (Local px) (unat (h_payload_len req))] w0 = Some (bad, w1)"
    by (auto simp: stream_exchange_def split: Option.bind_splits simp del: any_fails.simps)
  with run 0 have fine: "\<not> bad" by (auto simp: stream_exchange_def simp del: any_fails.simps)
  with run 0 1 obtain rc1 raw w2 where 2: "client_recv_full fd None OJLS_PROTO_HDR_LEN w1 = Some ((rc1, raw), w2)"
    by (auto simp: stream_exchange_def split: Option.bind_splits simp del: any_fails.simps)
  let ?resp = "ojls_hdr_unpack raw"
  obtain mok w3 where 3: "sys_malloc (unat (h_payload_len ?resp)) w2 = (mok, w3)" by force
  have ok: "rc1 = 0" "h_magic ?resp = OJLS_PROTO_MAGIC" "\<not> (h_status ?resp \<noteq> OJLS_ST_OK \<and> h_payload_len ?resp = 0)"
      "\<not> (h_type ?resp \<noteq> OJLS_MSG_STREAM_RESP \<or> h_payload_len ?resp < cnt * 4)" mok
    using run 0 1 fine 2 3 by (auto simp: stream_exchange_def Let_def simp del: any_fails.simps split: if_splits)
  obtain rc2 pl w4 where 4: "client_recv_full fd None (unat (h_payload_len ?resp)) w3 = Some ((rc2, pl), w4)"
    using ok run 0 1 fine 2 3 by (auto simp: stream_exchange_def Let_def simp del: any_fails.simps split: Option.bind_splits)
  obtain wr w5 where 5: "write_images dir pl (zip paths (resp_lens pl cnt)) (ucast (cnt * 4)) w4 = (wr, w5)" by force
  obtain t2 w6 where 6: "client_now_us w5 = (t2, w6)" by force
  have e: "(if rc2 \<noteq> 0 then Some ((1 :: int, True), w4) else if \<not> lens_add_up pl cnt (h_payload_len ?resp) then Some ((1, True), w4)
      else if \<not> wr then Some ((1, True), w5)
      else Some ((if h_status ?resp \<noteq> OJLS_ST_OK then 1 else 0, True), w6)) = Some ((0, al), w')"
    using run unfolding stream_exchange_def
    by (simp only: 0 1 fine 2 3 4 5 6 ok Let_def Option.bind.bind_lunit case_prod_conv if_True if_False simp_thms not_True_eq_False)
  then have r: "rc2 = 0" "lens_add_up pl cnt (h_payload_len ?resp)" wr "h_status ?resp = OJLS_ST_OK" "w' = w6"
    by (auto split: if_splits)
  note a1 = answer_received [OF 2 [unfolded ok(1)]] and a2 = answer_received [OF 4 [unfolded r(1)]]
  have adds: "unat (cnt * 4) + sum_list (map unat (resp_lens pl cnt)) = length pl"
    using r(2) a2 by (simp add: lens_add_up_iff)
  have "map snd (zip paths (resp_lens pl cnt)) = resp_lens pl cnt" using paths by (simp add: resp_lens_def)
  then have sums: "map (unat \<circ> snd) (zip paths (resp_lens pl cnt)) = map unat (resp_lens pl cnt)" by (metis list.map_comp)
  have "length pl < 2 ^ 64" using a2 unat_u32_less [of "h_payload_len ?resp"] by simp
  then have "unat (ucast (cnt * 4) :: u64) + sum_list (map (unat \<circ> snd) (zip paths (resp_lens pl cnt))) < 2 ^ 64"
    by (simp only: unat_widen sums adds)
  from write_images_ok [OF 5 [unfolded eqTrueI [OF r(3)]] this]
  have files: "files_written (hist w5) =
     rev (map (jls_file dir) (stretches pl (unat (cnt * 4)) (zip paths (resp_lens pl cnt)))) @ files_written (hist w4)"
    by (simp only: unat_widen)
  from fine have "bad = False" by simp
  note sends = 1 [unfolded this]
  have s: "sent fd w1 = sent fd w0 @ hdr_bytes req @ px" "rcvd fd w1 = rcvd fd w0" "files_written (hist w1) = files_written (hist w0)"
    using request_sent [OF sends px [symmetric]] by simp_all
  have io: "same_io fd w w0" "same_io fd w5 w6" "same_io fd w2 w3"
    using admin_io [OF client_now_admin, of fd w] admin_io [OF client_now_admin, of fd w5] 0 6 3
    by (auto simp: sys_malloc_def Let_def same_io_def)
  have w5: "sent fd w5 = sent fd w4" "rcvd fd w5 = rcvd fd w4" using write_images_wire [OF 5] by simp_all
  show thesis
    by (rule that [of raw pl])
      (use ok r a1 a2 adds files s io w5 in \<open>simp_all add: same_io_def\<close>)
qed

end
