(* ===== verification/OJLS_Cross.thy ===== *)
theory OJLS_Cross
  imports OJLS_Checks OJLS_Session OJLS_Host
begin

text \<open>
  The client against the server: a loaded image passes the checks of the protocol, an image
  sent through a loopback server comes back as it was, and the images of a stream message are
  what the client writes to its files.
\<close>

unbundle bit_operations_syntax

section \<open>The client's requests at the server's checks\<close>

lemma image_ok_bytes:
  assumes "image_ok img"
  shows "image_bytes_of (encode_req img) = im_bytes img" "8 \<le> im_bitness img" "im_bitness img \<le> 16"
proof -
  have "image_size (encode_req img) = unat (im_bytes img)"
    using assms by (simp add: image_ok_def image_size_def encode_req_def)
  then show "image_bytes_of (encode_req img) = im_bytes img"
    using image_bytes_exact [of "encode_req img"] unat_u32_less [of "im_bytes img"] by (simp add: word_unat_eq_iff)
  show "8 \<le> im_bitness img" "im_bitness img \<le> 16" using assms by (simp_all add: image_ok_def)
qed

text \<open>The option \<open>-b\<close> keeps an image well-formed.\<close>

lemma override_ok:
  assumes ok: "image_ok img" and ovr: "override_bits bits img = Some img'"
  shows "image_ok img'"
proof (cases "bits = 0")
  case True
  with assms show ?thesis by (simp add: override_bits_def)
next
  case False
  let ?w = "unat (im_width img)" and ?h = "unat (im_height img)"
  let ?p = "ucast (im_width img) * ucast (im_height img) :: u32"
  have w: "0 < ?w" "0 < ?h" using ok by (auto simp: image_ok_def unat_gt_0 word_greater_zero_iff)
  have "?w * ?h < 2 ^ 16 * 2 ^ 16" by (intro mult_strict_mono' unat_u16_less) simp_all
  then have p: "unat ?p = ?w * ?h" by (simp add: unat_word_ariths unat_widen)
  from False ovr have b: "uint (im_bitness img) \<le> bits" "bits \<le> 16"
    "im_bytes img div ?p \<noteq> 1 \<or> bits \<le> 8" and img': "img' = img\<lparr>im_bitness := of_int bits\<rparr>"
    by (auto simp: override_bits_def split: if_splits)
  have "0 \<le> bits" using b(1) uint_ge_0 [of "im_bitness img"] by linarith
  then obtain k where k: "bits = int k" by (rule nonneg_int_cases)
  with b(2) have u: "unat (of_int bits :: u8) = k" by (simp add: unsigned_of_nat take_bit_nat_eq_self)
  have bn: "unat (im_bitness img) \<le> k" using b(1) unfolding k by (simp only: uint_nat of_nat_le_iff)
  have "8 < k \<longleftrightarrow> 8 < unat (im_bitness img)"
  proof (cases "8 < unat (im_bitness img)")
    case True
    with bn show ?thesis by simp
  next
    case False
    with ok have "unat (im_bytes img) = ?w * ?h" by (simp add: image_ok_def word_less_nat_alt)
    then have "unat (im_bytes img div ?p) = 1" using p w by (simp add: unat_div)
    then have "im_bytes img div ?p = 1" by (simp add: word_unat_eq_iff)
    with b(3) False k show ?thesis by simp
  qed
  with ok u b(2) bn k show ?thesis
    by (simp add: image_ok_def img' word_less_nat_alt word_le_nat_alt)
qed

lemma client_request_passes:
  assumes "image_ok img"
  shows "check_request hw opt (encode_req img) = (if opt_loopback opt then OJLS_ST_OK else check_hw hw (encode_req img) 1, 1)"
proof -
  note b = image_ok_bytes [OF assms]
  have "check_proto (encode_req img) = OJLS_ST_OK"
    by (simp add: check_proto_def is_stream_def encode_req_def Let_def consts_defs)
  moreover have "check_size (encode_req img) = (OJLS_ST_OK, 1)"
    using b by (simp add: check_size_def is_stream_def Let_def encode_req_def consts_defs not_less)
  ultimately show ?thesis by (simp add: check_request_def)
qed

text \<open>
  C14: Every image the client loads, also after the option \<open>-b\<close> was applied, makes a request
  that the server's protocol and size checks accept: a loopback server takes it, and a hardware
  server decides by \<open>check_hw\<close> alone, that is by what its core and its buffers can hold.
\<close>

theorem client_request_accepted:
  assumes "pgm_load path w = Some (Loaded img, w')" and "override_bits bits img = Some img'"
  shows "check_request hw opt (encode_req img') = (if opt_loopback opt then OJLS_ST_OK else check_hw hw (encode_req img') 1, 1)"
proof -
  have "image_ok img" using pgm_load_facts [of path w] assms(1) by auto
  then show ?thesis by (intro client_request_passes override_ok [OF _ assms(2)])
qed

lemma sample_load:
  "map_option fst (pgm_load ''a'' (start_world (host_env [] small_pgm))) = Some (Loaded sample_image)"
  by code_simp

theorem client_request_accepted_witness:
  "override_bits 14 sample_image = Some (sample_image\<lparr>im_bitness := 14\<rparr>) \<and>
   check_request hw_zero loopback_options (encode_req (sample_image\<lparr>im_bitness := 14\<rparr>)) = (OJLS_ST_OK, 1)"
proof -
  obtain w' where l: "pgm_load ''a'' (start_world (host_env [] small_pgm)) = Some (Loaded sample_image, w')"
    using sample_load by (auto simp: map_option_case split: option.splits)
  have o: "override_bits 14 sample_image = Some (sample_image\<lparr>im_bitness := 14\<rparr>)" by code_simp
  from client_request_accepted [OF l o, of hw_zero loopback_options] o show ?thesis
    by (simp add: loopback_options_def)
qed

section \<open>An image through a loopback server\<close>

text \<open>The requests of a stream of bytes are determined by the bytes.\<close>

lemma requests_unique:
  assumes "request raw0 pl0"
  shows "\<forall>(raw, pl)\<in>set reqs. request raw pl \<Longrightarrow> concat (map (\<lambda>(raw, pl). raw @ pl) reqs) = concat (replicate n (raw0 @ pl0)) \<Longrightarrow>
    reqs = replicate n (raw0, pl0)"
proof (induction n arbitrary: reqs)
  case 0
  then show ?case by (cases reqs) (auto simp: request_def consts_defs)
next
  case (Suc n)
  have "raw0 \<noteq> []" using assms by (auto simp: request_def consts_defs)
  with Suc.prems(2) obtain raw pl rest where r: "reqs = (raw, pl) # rest" by (cases reqs) auto
  with Suc.prems have rq: "request raw pl" and eq: "raw @ pl @ concat (map (\<lambda>(raw, pl). raw @ pl) rest) =
      raw0 @ pl0 @ concat (replicate n (raw0 @ pl0))" by auto
  from rq assms have "length raw = length raw0" by (simp add: request_def)
  with eq have raw: "raw = raw0" and eq2: "pl @ concat (map (\<lambda>(raw, pl). raw @ pl) rest) = pl0 @ concat (replicate n (raw0 @ pl0))"
    by simp_all
  from rq assms raw have "length pl = length pl0" by (simp add: request_def)
  with eq2 have "pl = pl0" "concat (map (\<lambda>(raw, pl). raw @ pl) rest) = concat (replicate n (raw0 @ pl0))" by simp_all
  with raw r Suc show ?case by auto
qed

lemma replies_unique:
  assumes "client_reply (raw0, pl0)"
  shows "list_all client_reply rs \<Longrightarrow> bytes_of_replies rs = concat (replicate n (raw0 @ pl0)) \<Longrightarrow> rs = replicate n (raw0, pl0)"
proof (induction n arbitrary: rs)
  case 0
  then show ?case by (cases rs) (auto simp: client_reply_def bytes_of_replies_def Let_def consts_defs)
next
  case (Suc n)
  have "raw0 \<noteq> []" using assms by (auto simp: client_reply_def Let_def consts_defs)
  with Suc.prems(2) obtain raw pl rest where r: "rs = (raw, pl) # rest" by (cases rs) (auto simp: bytes_of_replies_def)
  with Suc.prems have rq: "client_reply (raw, pl)" and eq: "raw @ pl @ bytes_of_replies rest =
      raw0 @ pl0 @ concat (replicate n (raw0 @ pl0))" by (auto simp: bytes_of_replies_def)
  from rq assms have "length raw = length raw0" by (simp add: client_reply_def Let_def)
  with eq have raw: "raw = raw0" and eq2: "pl @ bytes_of_replies rest = pl0 @ concat (replicate n (raw0 @ pl0))"
    by simp_all
  from rq assms raw have "length pl = length pl0" by (simp add: client_reply_def Let_def)
  with eq2 have "pl = pl0" "bytes_of_replies rest = concat (replicate n (raw0 @ pl0))" by simp_all
  with raw r Suc show ?case by auto
qed

lemma encode_request:
  assumes "image_ok img"
  shows "request (hdr_bytes (encode_req img)) (im_pixels img)"
  using assms by (simp add: request_def image_ok_def encode_req_def consts_defs)

lemma loopback_image:
  assumes "image_ok img" "opt_loopback opt"
  shows "\<exists>raw. loopback_answer hw opt (hdr_bytes (encode_req img)) (im_pixels img) = raw @ im_pixels img \<and>
    client_reply (raw, im_pixels img)"
proof -
  let ?h = "(encode_req img)\<lparr>h_type := OJLS_MSG_ENCODE_RESP, h_status := OJLS_ST_OK\<rparr>"
  have "loopback_answer hw opt (hdr_bytes (encode_req img)) (im_pixels img) = hdr_bytes ?h @ im_pixels img"
    using client_request_passes [OF assms(1), of hw opt] assms(2)
    by (simp add: loopback_answer_def loopback_msg_def encode_req_def consts_defs)
  moreover have "client_reply (hdr_bytes ?h, im_pixels img)"
    using assms(1) by (simp add: client_reply_def Let_def image_ok_def encode_req_def consts_defs)
  ultimately show ?thesis by blast
qed

text \<open>
  C8: A client and a loopback server joined by a pair of byte streams: when the client's
  rounds report success and the server's connection ends in order, the server having received
  what the client sent and the client what the server sent, the response buffer of the client
  holds the pixels of its image, in every round.
\<close>

theorem loopback_end_to_end:
  assumes client: "client_rounds n cfd img \<lparr>rb_block = None, rb_len = 0, rb_data = []\<rparr> cw = Some ((True, rb), cw')"
    and server: "serve_connection sfd hw opt sw = Some (0, sw')" "opt_loopback opt"
    and up: "sent cfd cw' = sent cfd cw @ up" "rcvd sfd sw' = rcvd sfd sw @ up"
    and down: "sent sfd sw' = sent sfd sw @ down" "rcvd cfd cw' = rcvd cfd cw @ down"
    and img: "image_ok img" and n: "0 < n"
  shows "rb_data rb = im_pixels img"
proof -
  from client_rounds_ok [OF client] img obtain rs where rs: "length rs = n" "list_all client_reply rs"
    "up = concat (replicate n (client_request img))" "down = bytes_of_replies rs" "rb_data rb = snd (last rs)"
    using n up(1) down(2) by (auto simp: image_ok_def resp_room_def)
  from serve_loopback_echo [OF server] up(2) down(1) obtain reqs where reqs: "\<forall>(raw, payload)\<in>set reqs. request raw payload"
    "up = concat (map (\<lambda>(raw, payload). raw @ payload) reqs)"
    "down = concat (map (\<lambda>(raw, payload). loopback_answer hw opt raw payload) reqs)" by auto
  from requests_unique [OF encode_request [OF img] reqs(1), of n] reqs(2) rs(3)
  have "reqs = replicate n (hdr_bytes (encode_req img), im_pixels img)" by (simp add: client_request_def)
  moreover obtain raw where raw: "loopback_answer hw opt (hdr_bytes (encode_req img)) (im_pixels img) = raw @ im_pixels img"
    "client_reply (raw, im_pixels img)" using loopback_image [OF img server(2)] by blast
  ultimately have "down = concat (replicate n (raw @ im_pixels img))" using reqs(3) by simp
  with replies_unique [OF raw(2) rs(2)] rs(4) have "rs = replicate n (raw, im_pixels img)" by simp
  with rs(5) n show ?thesis by simp
qed

text \<open>The two programs, run against what the other one sends.\<close>

lemma sample_pair:
  "map_option (\<lambda>((ok, rb), w). (ok, sent 5 w, rcvd 5 w)) (client_rounds 1 5 sample_image \<lparr>rb_block = None, rb_len = 0, rb_data = []\<rparr>
      (start_world (sample_env (loopback_answer hw_zero loopback_options (hdr_bytes (encode_req sample_image)) [2, 1, 4, 3])))) =
    Some (True, client_request sample_image, loopback_answer hw_zero loopback_options (hdr_bytes (encode_req sample_image)) [2, 1, 4, 3])"
  "map_option (\<lambda>(rc, w). (rc, rcvd 6 w, sent 6 w)) (serve_connection 6 hw_zero loopback_options (start_world (sample_env (client_request sample_image)))) =
    Some (0, client_request sample_image, loopback_answer hw_zero loopback_options (hdr_bytes (encode_req sample_image)) [2, 1, 4, 3])"
  by code_simp+

theorem loopback_end_to_end_witness:
  "\<exists>rb w'. client_rounds 1 5 sample_image \<lparr>rb_block = None, rb_len = 0, rb_data = []\<rparr>
      (start_world (sample_env (loopback_answer hw_zero loopback_options (hdr_bytes (encode_req sample_image)) [2, 1, 4, 3]))) = Some ((True, rb), w') \<and>
    rb_data rb = [2, 1, 4, 3]"
proof -
  let ?down = "loopback_answer hw_zero loopback_options (hdr_bytes (encode_req sample_image)) [2, 1, 4, 3]"
  obtain rb w' where c: "client_rounds 1 5 sample_image \<lparr>rb_block = None, rb_len = 0, rb_data = []\<rparr> (start_world (sample_env ?down)) = Some ((True, rb), w')"
    "sent 5 w' = client_request sample_image" "rcvd 5 w' = ?down"
    using sample_pair(1) by (auto simp: map_option_case split: option.splits)
  obtain v' where s: "serve_connection 6 hw_zero loopback_options (start_world (sample_env (client_request sample_image))) = Some (0, v')"
    "rcvd 6 v' = client_request sample_image" "sent 6 v' = ?down"
    using sample_pair(2) by (auto simp: map_option_case split: option.splits)
  have z: "sent k (start_world E) = []" "rcvd k (start_world E) = []" for k E
    by (simp_all add: sent_def rcvd_def trace_def start_world_def)
  have "opt_loopback loopback_options" by (simp add: loopback_options_def)
  from loopback_end_to_end [OF c(1) s(1) this, of "client_request sample_image" ?down] c s sample_image_ok
  have "rb_data rb = im_pixels sample_image" by (simp add: z)
  with c(1) show ?thesis by (auto simp: sample_image_def loaded_image_def)
qed

section \<open>The images of a stream in the client's files\<close>

lemma stretches_images:
  "map length images = map unat lens \<Longrightarrow> length paths = length images \<Longrightarrow>
     stretches (pre @ concat images) (length pre) (zip paths lens) = filter (\<lambda>(p, im). im \<noteq> []) (zip paths images)"
proof (induction images arbitrary: pre lens paths)
  case (Cons im images)
  then obtain l ls q qs where c: "lens = l # ls" "paths = q # qs" by (cases lens; cases paths) auto
  with Cons.prems have l: "length im = unat l" "map length images = map unat ls" "length qs = length images" by auto
  then have "stretches ((pre @ im) @ concat images) (length (pre @ im)) (zip qs ls) = filter (\<lambda>(p, im). im \<noteq> []) (zip qs images)"
    by (intro Cons.IH)
  moreover have "l = 0 \<longleftrightarrow> im = []" using l(1) by (metis length_0_conv unat_eq_0)
  ultimately show ?case using c l by auto
qed simp

text \<open>The parts of a stream message as the client finds them.\<close>

lemma stream_msg_parts:
  assumes msg: "raw @ payload = stream_msg_of req st cnt lens images" and raw: "length raw = OJLS_PROTO_HDR_LEN"
    and lens: "length lens = unat cnt"
  shows "raw = hdr_bytes (stream_resp req st (stream_total lens cnt))"
    and "payload = concat (map u32_bytes lens) @ concat images" and "resp_lens payload cnt = lens"
proof -
  show r: "raw = hdr_bytes (stream_resp req st (stream_total lens cnt))"
    and p: "payload = concat (map u32_bytes lens) @ concat images"
    using msg raw by (simp_all add: stream_msg_of_def consts_defs)
  show "resp_lens payload cnt = lens"
    using u32c.dec_table [of lens "concat images"] by (simp add: resp_lens_def p lens)
qed

text \<open>
  C13: A stream exchange that reports success against a server that answers with a stream
  message: the client has sent exactly its header and its pixels, the status is OK, and for
  each image that came back, in the order of the paths, the file named after its path holds
  exactly that image; an image that did not close gets no file.
\<close>

theorem stream_exchange_files:
  assumes run: "stream_exchange fd dir paths req px cnt w = Some ((0, al), w')"
    and px: "length px = unat (h_payload_len req)" and paths: "length paths = unat cnt" "unat cnt * 4 < 2 ^ 32"
    and msg: "rcvd fd w' = rcvd fd w @ stream_msg_of sreq st cnt lens images"
    and lens: "length lens = unat cnt" "map length images = map unat lens"
  shows "st = OJLS_ST_OK \<and> sent fd w' = sent fd w @ hdr_bytes req @ px \<and>
    files_written (hist w') = rev (map (jls_file dir) (filter (\<lambda>(p, im). im \<noteq> []) (zip paths images))) @ files_written (hist w)"
proof -
  from stream_exchange_ok [OF run px paths(1)] obtain raw payload where x: "length raw = OJLS_PROTO_HDR_LEN"
    "h_status (ojls_hdr_unpack raw) = OJLS_ST_OK" "sent fd w' = sent fd w @ hdr_bytes req @ px"
    "rcvd fd w' = rcvd fd w @ raw @ payload" "files_written (hist w') =
       rev (map (jls_file dir) (stretches payload (unat (cnt * 4)) (zip paths (resp_lens payload cnt)))) @ files_written (hist w)"
    by metis
  have "raw @ payload = stream_msg_of sreq st cnt lens images" using x(4) msg by simp
  note parts = stream_msg_parts [OF this x(1) lens(1)]
  have st: "st = OJLS_ST_OK" using x(2) parts(1) by (simp add: stream_resp_def)
  have "unat (cnt * 4) = length (concat (map u32_bytes lens))"
    using paths(2) lens(1) u32c.length_table [of lens] by (simp add: unat_word_ariths mult.commute)
  moreover have "length paths = length images" using paths(1) lens by (metis length_map)
  ultimately have "stretches payload (unat (cnt * 4)) (zip paths (resp_lens payload cnt)) = filter (\<lambda>(p, im). im \<noteq> []) (zip paths images)"
    using stretches_images [OF lens(2), of paths "concat (map u32_bytes lens)"] parts(2,3) by simp
  with x(3,5) st show ?thesis by simp
qed

definition sample_stream_img :: image where
  "sample_stream_img = loaded_image 2 1 8 2 []"

definition sample_stream_msg :: "u8 list" where
  "sample_stream_msg = stream_msg_of (stream_req sample_stream_img 100 2) OJLS_ST_OK 2 [3, 2] [[7, 8, 9], [5, 6]]"

lemma sample_stream_exchange:
  "map_option (\<lambda>((rc, al), w). (rc, rcvd 5 w)) (stream_exchange 5 ''out'' [''a'', ''b''] (stream_req sample_stream_img 100 2) [1, 2, 3, 4] 2
     (start_world (sample_env sample_stream_msg))) = Some (0, sample_stream_msg)"
  by code_simp

theorem stream_exchange_files_witness:
  "\<exists>al w'. stream_exchange 5 ''out'' [''a'', ''b''] (stream_req sample_stream_img 100 2) [1, 2, 3, 4] 2
     (start_world (sample_env sample_stream_msg)) = Some ((0, al), w') \<and>
     files_written (hist w') = [(''out/b.jls'', [5, 6]), (''out/a.jls'', [7, 8, 9])]"
proof -
  let ?w = "start_world (sample_env sample_stream_msg)"
  obtain al w' where r: "stream_exchange 5 ''out'' [''a'', ''b''] (stream_req sample_stream_img 100 2) [1, 2, 3, 4] 2 ?w = Some ((0, al), w')"
    "rcvd 5 w' = sample_stream_msg"
    using sample_stream_exchange by (auto simp: map_option_case split: option.splits)
  have z: "rcvd 5 ?w = []" "hist ?w = []" by (simp_all add: rcvd_def trace_def start_world_def)
  have names: "jls_path ''out'' ''a'' = ''out/a.jls''" "jls_path ''out'' ''b'' = ''out/b.jls''" by code_simp+
  have "length [1, 2, 3, 4 :: u8] = unat (h_payload_len (stream_req sample_stream_img 100 2))"
    by (simp add: stream_req_def sample_stream_img_def loaded_image_def)
  from stream_exchange_files [OF r(1) this, of "stream_req sample_stream_img 100 2" OJLS_ST_OK "[3, 2]" "[[7, 8, 9], [5, 6]]"] r z names
  show ?thesis by (simp add: sample_stream_msg_def jls_file_def)
qed

section \<open>Long streams\<close>


end
