(* ===== verification/OJLS_Release.thy ===== *)
theory OJLS_Release
  imports OJLS_Serve OJLS_Balance
begin

text \<open>
  What the server gives back: no request keeps a heap block beyond the loopback buffer of its
  connection, no connection keeps anything, and a server that ends in order has closed and
  unmapped everything it opened.
\<close>

unbundle bit_operations_syntax

section \<open>Descriptors, mappings and heap blocks\<close>

text \<open>
  \<open>keeps n\<close>: \<open>n\<close> more heap blocks, the same descriptors and mappings. It is \<open>balance\<close> without
  the streams of \<open>stdio.h\<close>, so that every operation of the hardware layer has it by its events.
\<close>

definition keeps :: "int \<Rightarrow> world \<Rightarrow> world \<Rightarrow> bool" where
  "keeps n w w' \<longleftrightarrow> open_fds (hist w') = open_fds (hist w) \<and> mappings (hist w') = mappings (hist w) \<and>
     live_blocks (hist w') = live_blocks (hist w) + n"

lemma keeps_refl [simp]: "keeps 0 w w"
  by (simp add: keeps_def)

lemma keeps_trans: "keeps m w w1 \<Longrightarrow> keeps n w1 w2 \<Longrightarrow> keeps (m + n) w w2"
  by (simp add: keeps_def)

lemma keeps_after: "keeps n w w1 \<Longrightarrow> keeps 0 w1 w2 \<Longrightarrow> keeps n w w2"
  by (simp add: keeps_def)

lemma keeps_before: "keeps 0 w w1 \<Longrightarrow> keeps n w1 w2 \<Longrightarrow> keeps n w w2"
  by (simp add: keeps_def)

lemma balance_keeps: "balance n w w' \<Longrightarrow> keeps n w w'"
  by (simp add: balance_def same_resources_def keeps_def)

lemma hw_event_heap: "hw_event k e \<Longrightarrow> \<not> is_heap e"
  by (cases e) auto

lemma hw_keeps: "emits (hw_event k) w w' \<Longrightarrow> keeps 0 w w'"
proof -
  assume e: "emits (hw_event k) w w'"
  then have "emits (\<lambda>e. \<not> is_heap e) w w'" by (rule emits_mono) (rule hw_event_heap)
  with hw_emits_fds [OF e] show ?thesis by (simp add: keeps_def live_blocks_emits)
qed

lemma keeps_freed: "keeps n w w1 \<Longrightarrow> keeps (n - 1) w (sys_free w1)"
  by (simp add: keeps_def sys_free_def)

lemmas keeps_write = balance_keeps [OF balance_write] and keeps_read = balance_keeps [OF balance_read]

section \<open>The handlers\<close>

lemma send_keeps: "send_full fd buf n w = Some (rc, w') \<Longrightarrow> keeps 0 w w'"
  by (rule keeps_write [OF srv.send_emits])

lemma sends_keeps:
  assumes "any_fails ms w = Some (b, w')" and "\<And>m. m \<in> set ms \<Longrightarrow> \<exists>buf n. m = send_full fd buf n"
  shows "keeps 0 w w'"
proof (rule balance_keeps [OF balance_any_fails [OF assms(1)]])
  fix m u r v
  assume "m \<in> set ms" "m u = Some (r, v)"
  with assms(2) obtain buf n where "send_full fd buf n u = Some (r, v)" by metis
  then show "balance 0 u v" by (rule balance_write [OF srv.send_emits])
qed

lemma send_error_keeps: "send_error fd req st w = Some (rc, w') \<Longrightarrow> keeps 0 w w'"
  unfolding send_error_def by (rule send_keeps)

lemma stream_send_keeps:
  assumes "stream_send fd req st base slot lens cnt w = Some (rc, w')"
  shows "keeps 0 w w'"
proof -
  from assms obtain b where a: "any_fails (send_full fd (Local (hdr_bytes (stream_resp req st (stream_total lens cnt)))) OJLS_PROTO_HDR_LEN
      # map (send_len fd lens) [0..<unat cnt] @ map (send_image fd base slot lens) [0..<unat cnt]) w = Some (b, w')"
    by (auto simp: stream_send_def split: Option.bind_splits simp del: any_fails.simps)
  have "send_len fd lens i = send_full fd (Local (u32_bytes (lens ! i))) 4"
    "send_image fd base slot lens i = send_full fd (src_at base (of_nat i * slot)) (unat (lens ! i))" for i
    by (intro ext; simp add: send_len_def send_image_def)+
  then show ?thesis by (intro sends_keeps [OF a, of fd]) auto
qed

lemma encode_reply_keeps:
  assumes "encode_reply fd hw req s2mm w = Some (st, w')"
  shows "keeps 0 w w'"
proof -
  obtain t w1 where 1: "now_us w = (t, w1)" by force
  obtain n w2 where 2: "axidma_ring_bytes s2mm w1 = (n, w2)" by force
  obtain sy w3 where 3: "udmabuf_sync_for_cpu (rg_b (hw_rx hw)) (rg_off (hw_rx hw)) n w2 = (sy, w3)" by force
  have "emits (hw_event 0) w w3"
    by (intro to_cpu_after [OF 3] ring_bytes_after [OF 2] now_us_after [OF 1] emits_refl)
  then have k: "keeps 0 w w3" by (rule hw_keeps)
  show ?thesis
  proof (cases "sy = 0")
    case False
    with assms 1 2 3 k show ?thesis by (simp add: encode_reply_def)
  next
    case True
    with assms 1 2 3 obtain b where
      a: "any_fails [send_full fd (Local (hdr_bytes (encode_resp req n))) OJLS_PROTO_HDR_LEN,
        send_full fd (Mem (region_mem (hw_rx hw))) (unat n)] w3 = Some (b, w')"
      by (auto simp: encode_reply_def split: Option.bind_splits simp del: any_fails.simps)
    have "keeps 0 w3 w'" by (rule sends_keeps [OF a, of fd]) auto
    with k show ?thesis by (rule keeps_after)
  qed
qed

lemma encode_and_reply_keeps:
  assumes "encode_and_reply fd hw req ms w = Some (st, w')"
  shows "keeps 0 w w'"
  using assms
proof (cases rule: encode_and_reply_cases)
  case failed
  then show ?thesis by (blast intro: hw_keeps)
next
  case replied
  then show ?thesis by (blast intro: keeps_after hw_keeps encode_reply_keeps)
qed

text \<open>The reply to a stream frees the array of lengths, on every way out.\<close>

lemma stream_reply_keeps:
  assumes "stream_reply fd hw req cnt slot s2mm status w = Some (st, w')"
  shows "keeps (-1) w w'"
proof -
  from assms(1) obtain bad w1 where a: "any_fails
       [io_of (udmabuf_sync_for_cpu (hw_desc_buf hw) 0 (cnt * of_nat desc_size)),
        io_of (udmabuf_sync_for_cpu (rg_b (hw_rx hw)) (rg_off (hw_rx hw)) (slot * cnt))] w = Some (bad, w1)"
    by (auto simp: stream_reply_def split: Option.bind_splits simp del: any_fails.simps)
  have e1: "emits (hw_event 0) w w1"
    by (rule any_fails_after [OF a emits_refl]) (auto intro: emits_intros)
  show ?thesis
  proof (cases bad)
    case True
    with assms(1) a keeps_freed [OF hw_keeps [OF e1]] show ?thesis
      by (simp add: stream_reply_def del: any_fails.simps)
  next
    case False
    obtain lens w2 where l: "closed_lens s2mm (unat cnt) 0 w1 = (lens, w2)" by force
    from assms(1) a False l obtain rc w3 where
      s: "stream_send fd req status (Mem (region_mem (hw_rx hw))) slot lens cnt w2 = Some (rc, w3)" "w' = sys_free w3"
      by (auto simp: stream_reply_def simp del: any_fails.simps split: Option.bind_splits)
    from keeps_freed [OF keeps_after [OF hw_keeps [OF closed_lens_after [OF l e1]] stream_send_keeps [OF s(1)]]]
    show ?thesis by (simp add: s(2))
  qed
qed

lemma stream_and_reply_keeps:
  assumes "stream_and_reply fd hw req cnt ms w = Some (st, w')"
  shows "keeps 0 w w'"
proof -
  define slot where "slot = stream_slot_bytes (h_payload_len req div cnt)"
  define pct :: u32 where "pct = (if h_ready_pct req \<noteq> 0 then ucast (h_ready_pct req) else 100)"
  let ?k = "u_fd (dma_uio (hw_dma hw))"
  note sr = stream_and_reply_def [of fd hw req cnt ms w, unfolded Let_def, folded slot_def pct_def]
  from assms(1) obtain bad1 w1 where p: "any_fails
          [hw_configure hw (h_width req) (h_height req), io_of (gate_set hw pct),
           io_of (udmabuf_sync_for_device (rg_b (hw_tx hw)) (rg_off (hw_tx hw)) (h_payload_len req)),
           axidma_reset (hw_dma hw)] w = Some (bad1, w1)"
    by (auto simp: sr split: Option.bind_splits simp del: any_fails.simps)
  obtain rings w2 where b: "build_rings hw (ucast slot * ucast cnt) slot (h_payload_len req) w1 = (rings, w2)" by force
  obtain sy w3 where s: "udmabuf_sync_for_device (hw_desc_buf hw) 0 (b_size (hw_desc_buf hw)) w2 = (sy, w3)" by force
  obtain ok w4 where c: "sys_calloc cnt 4 w3 = (ok, w4)" by force
  obtain t w5 where n: "now_us w4 = (t, w5)" by force
  have e1: "emits (hw_event ?k) w w1" by (rule prepare_after [OF p emits_refl])
  note e2 = build_rings_after [OF b e1]
  note e3 = to_device_after [OF s e2]
  have k4: "keeps (if ok then 1 else 0) w w4"
    using hw_keeps [OF e3] balance_keeps [OF balance_calloc [OF c]] by (rule keeps_before)
  show ?thesis
  proof (cases "bad1 \<or> rings = None \<or> sy \<noteq> 0 \<or> \<not> ok")
    case True
    with assms(1) p b s c have "w' = w1 \<or> w' = w2 \<or> w' = w3 \<or> w' = w4 \<and> \<not> ok"
      by (auto simp: sr simp del: any_fails.simps split: option.splits if_splits)
    with hw_keeps [OF e1] hw_keeps [OF e2] hw_keeps [OF e3] k4 show ?thesis by auto
  next
    case run: False
    then obtain s2mm mm2s where r: "rings = Some (s2mm, mm2s)" by auto
    with assms(1) p b s c n run obtain bad2 w6 where st: "any_fails
        [io_of (axidma_sg_start (hw_dma hw) AXIDMA_S2MM s2mm), io_of (axidma_sg_start (hw_dma hw) AXIDMA_MM2S mm2s)] w5 = Some (bad2, w6)"
      by (auto simp: sr simp del: any_fails.simps split: Option.bind_splits)
    have e6: "emits (hw_event ?k) w4 w6" by (rule start_after [OF st now_us_after [OF n emits_refl]])
    have k6: "keeps 1 w w6" using keeps_after [OF k4 hw_keeps [OF e6]] run by simp
    show ?thesis
    proof (cases bad2)
      case True
      with assms(1) p b s c n r st run have "w' = sys_free w6" by (auto simp: sr simp del: any_fails.simps)
      with keeps_freed [OF k6] show ?thesis by simp
    next
      case started: False
      with assms(1) p b s c n r st run obtain rc w7 where
        wt: "axidma_wait_packets (hw_dma hw) s2mm ms w6 = Some (rc, w7)"
        by (auto simp: sr simp del: any_fails.simps split: Option.bind_splits)
      obtain t8 w8 where n8: "now_us w7 = (t8, w8)" by force
      note e8 = now_us_after [OF n8 axidma_wait_packets_after [OF wt emits_refl]]
      have "\<exists>w9 status. emits (hw_event ?k) w6 w9 \<and> stream_reply fd hw req cnt slot s2mm status w9 = Some (st, w')"
      proof (cases "rc = 0")
        case True
        with assms(1) p b s c n r st run started wt n8
        have "stream_reply fd hw req cnt slot s2mm OJLS_ST_OK w8 = Some (st, w')"
          by (auto simp: sr simp del: any_fails.simps)
        with e8 show ?thesis by blast
      next
        case False
        with assms(1) p b s c n r st run started wt n8 obtain x w9 where
          "hw_recover hw (h_width req) (h_height req) w8 = Some (x, w9)"
          "stream_reply fd hw req cnt slot s2mm (if rc = -2 then OJLS_ST_HW_TIMEOUT else OJLS_ST_HW_ERROR) w9 = Some (st, w')"
          by (auto simp: sr simp del: any_fails.simps split: Option.bind_splits)
        with hw_recover_after [OF _ e8] show ?thesis by blast
      qed
      then obtain w9 status where r9: "emits (hw_event ?k) w6 w9" "stream_reply fd hw req cnt slot s2mm status w9 = Some (st, w')"
        by blast
      from keeps_trans [OF keeps_after [OF k6 hw_keeps [OF r9(1)]] stream_reply_keeps [OF r9(2)]] show ?thesis by simp
    qed
  qed
qed

lemma loopback_reply_keeps:
  assumes "loopback_reply fd req payload w = Some (rc, w')"
  shows "keeps 0 w w'"
proof (cases "h_type req = OJLS_MSG_STREAM_REQ")
  case True
  let ?cnt = "h_payload_len req div image_bytes_of req"
  obtain ok w1 where m: "sys_malloc (unat (?cnt * 4)) w = (ok, w1)" by force
  note k = balance_keeps [OF balance_malloc [OF m]]
  show ?thesis
  proof (cases ok)
    case False
    with assms True m k show ?thesis by (simp add: loopback_reply_def Let_def)
  next
    case ok: True
    with assms True m obtain w2 where
      "stream_send fd req OJLS_ST_OK payload (image_bytes_of req) (replicate (unat ?cnt) (image_bytes_of req)) ?cnt w1 = Some (rc, w2)"
      "w' = sys_free w2"
      by (auto simp: loopback_reply_def Let_def split: Option.bind_splits)
    with keeps_freed [OF keeps_after [OF k stream_send_keeps]] ok show ?thesis by fastforce
  qed
next
  case False
  with assms obtain b where "any_fails
      [send_full fd (Local (hdr_bytes (req\<lparr>h_type := OJLS_MSG_ENCODE_RESP, h_status := OJLS_ST_OK\<rparr>))) OJLS_PROTO_HDR_LEN,
       send_full fd payload (unat (h_payload_len req))] w = Some (b, w')"
    by (auto simp: loopback_reply_def split: Option.bind_splits simp del: any_fails.simps)
  then show ?thesis by (rule sends_keeps [of _ _ _ _ fd]) auto
qed

section \<open>A connection\<close>

definition buf_blocks :: "loopbuf \<Rightarrow> int" where
  "buf_blocks lb = (if fst lb then 1 else 0)"

lemma free_buf_keeps: "keeps n w w1 \<Longrightarrow> keeps (n - buf_blocks lb) w (free_buf lb w1)"
  using keeps_freed [of n w w1] by (simp add: free_buf_def buf_blocks_def)

lemma grow_loopbuf_keeps:
  assumes "grow_loopbuf len lb w = (lb1, w1)"
  shows "keeps (buf_blocks lb1 - buf_blocks lb) w w1"
proof (cases "snd lb < len")
  case True
  obtain ok w2 where m: "sys_malloc (unat len) (free_buf lb w) = (ok, w2)" by force
  have "keeps (- buf_blocks lb) w (free_buf lb w)" using free_buf_keeps [of 0 w w lb] by simp
  from keeps_trans [OF this balance_keeps [OF balance_malloc [OF m]]] show ?thesis
    using assms True m by (auto simp: grow_loopbuf_def buf_blocks_def Let_def)
next
  case False
  with assms show ?thesis by (simp add: grow_loopbuf_def)
qed

lemma recv_keeps: "recv_full fd dst n w = Some ((rc, bs), w') \<Longrightarrow> keeps 0 w w'"
  by (rule keeps_read [OF srv.recv_emits])

lemma serve_reject_keeps:
  assumes "serve_reject fd req st w = Some (rc, w')"
  shows "keeps 0 w w'"
proof -
  from assms obtain rd w1 where d: "drain fd (unat (h_payload_len req)) w = Some (rd, w1)"
    by (auto simp: serve_reject_def split: Option.bind_splits)
  note k = keeps_read [OF drain_emits [OF d]]
  show ?thesis
  proof (cases "rd = 0")
    case False
    with assms d k show ?thesis by (auto simp: serve_reject_def)
  next
    case True
    with assms d obtain se where "send_error fd req st w1 = Some (se, w')"
      by (auto simp: serve_reject_def split: Option.bind_splits if_splits)
    with k show ?thesis by (blast intro: keeps_after send_error_keeps)
  qed
qed

lemma serve_loopback_keeps:
  assumes "serve_loopback fd req lb w = Some ((rc, lb'), w')"
  shows "keeps (buf_blocks lb' - buf_blocks lb) w w'"
proof -
  obtain lb1 w1 where g: "grow_loopbuf (h_payload_len req) lb w = (lb1, w1)" by (metis prod.exhaust)
  note k1 = grow_loopbuf_keeps [OF g]
  show ?thesis
  proof (cases "snd lb < h_payload_len req \<and> \<not> fst lb1")
    case True
    with assms k1 show ?thesis unfolding serve_loopback_def g by simp
  next
    case False
    then obtain rc1 pl w2 where v: "recv_full fd None (unat (h_payload_len req)) w1 = Some ((rc1, pl), w2)"
      using assms unfolding serve_loopback_def g by (auto split: Option.bind_splits)
    note k2 = keeps_after [OF k1 recv_keeps [OF v]]
    show ?thesis
    proof (cases "rc1 = 0")
      case rc1: False
      with assms False v have "lb' = lb1" "w' = w2" unfolding serve_loopback_def g by auto
      with k2 show ?thesis by simp
    next
      case True
      with assms False v obtain rr where l: "loopback_reply fd req (Local pl) w2 = Some (rr, w')" "lb' = lb1"
        unfolding serve_loopback_def g by (auto split: Option.bind_splits)
      with keeps_after [OF k2 loopback_reply_keeps [OF l(1)]] show ?thesis by simp
    qed
  qed
qed

lemma serve_hw_keeps:
  assumes "serve_hw fd hw req cnt ms w = Some (rc, w')"
  shows "keeps 0 w w'"
proof -
  from assms obtain rc1 pl w1 where v: "recv_full fd (Some (region_mem (hw_tx hw))) (unat (h_payload_len req)) w = Some ((rc1, pl), w1)"
    by (auto simp: serve_hw_def split: Option.bind_splits)
  note k1 = recv_keeps [OF v]
  show ?thesis
  proof (cases "rc1 = 0")
    case False
    with assms v k1 show ?thesis by (auto simp: serve_hw_def)
  next
    case True
    with assms v obtain st w2 where h: "(if is_stream req then stream_and_reply fd hw req cnt ms w1
        else encode_and_reply fd hw req ms w1) = Some (st, w2)"
      by (auto simp: serve_hw_def split: Option.bind_splits)
    then have "keeps 0 w1 w2" by (auto split: if_splits intro: stream_and_reply_keeps encode_and_reply_keeps)
    with k1 have k2: "keeps 0 w w2" by (rule keeps_after)
    from assms v True h have "w' = w2 \<or> (\<exists>se. send_error fd req (of_int st) w2 = Some (se, w'))"
      by (auto simp: serve_hw_def split: Option.bind_splits if_splits)
    with k2 show ?thesis by (blast intro: keeps_after send_error_keeps)
  qed
qed

text \<open>One round: it keeps what the loopback buffer changed by.\<close>

definition round_buf :: "loopbuf + int \<times> loopbuf \<Rightarrow> loopbuf" where
  "round_buf r = (case r of Inl lb \<Rightarrow> lb | Inr (rc, lb) \<Rightarrow> lb)"

lemma serve_body_keeps:
  assumes "serve_body fd hw opt lb w = Some (r, w')"
  shows "keeps (buf_blocks (round_buf r) - buf_blocks lb) w w'"
proof -
  from assms obtain rc raw w1 where v: "recv_full fd None OJLS_PROTO_HDR_LEN w = Some ((rc, raw), w1)"
    by (auto simp: serve_body_def split: Option.bind_splits)
  note k1 = recv_keeps [OF v]
  let ?req = "ojls_hdr_unpack raw"
  obtain st cnt where chk: "check_request hw opt ?req = (st, cnt)" by force
  note sb = serve_body_def [of fd hw opt lb w] v chk
  have "round_buf r = lb \<and> keeps 0 w1 w' \<or> keeps (buf_blocks (round_buf r) - buf_blocks lb) w1 w'"
  proof (cases "rc = 0")
    case False
    with assms have "round_buf r = lb" "w' = w1" by (auto simp: sb round_buf_def split: if_splits)
    then show ?thesis by simp
  next
    case rc: True
    show ?thesis
    proof (cases "h_magic ?req = OJLS_PROTO_MAGIC")
      case False
      with assms rc obtain x where "send_error fd ?req OJLS_ST_BAD_MAGIC w1 = Some (x, w')" "round_buf r = lb"
        by (auto simp: sb round_buf_def split: Option.bind_splits)
      then show ?thesis by (blast intro: send_error_keeps)
    next
      case magic: True
      show ?thesis
      proof (cases "st = OJLS_ST_OK")
        case False
        with assms rc magic obtain x where "serve_reject fd ?req st w1 = Some (x, w')" "round_buf r = lb"
          by (auto simp: sb round_buf_def split: Option.bind_splits if_splits)
        then show ?thesis by (blast intro: serve_reject_keeps)
      next
        case st: True
        show ?thesis
        proof (cases "opt_loopback opt")
          case True
          with assms rc magic st obtain x lb1 where "serve_loopback fd ?req lb w1 = Some ((x, lb1), w')" "round_buf r = lb1"
            by (auto simp: sb round_buf_def split: Option.bind_splits if_splits)
          with serve_loopback_keeps show ?thesis by blast
        next
          case False
          with assms rc magic st obtain x where "serve_hw fd hw ?req cnt (opt_timeout_ms opt) w1 = Some (x, w')" "round_buf r = lb"
            by (auto simp: sb round_buf_def split: Option.bind_splits if_splits)
          then show ?thesis by (blast intro: serve_hw_keeps)
        qed
      qed
    qed
  qed
  then show ?thesis using keeps_before [OF k1] by (metis diff_self)
qed

lemma serve_connection_keeps:
  assumes "serve_connection fd hw opt w = Some (rc, w')"
  shows "keeps 0 w w'"
proof -
  from assms obtain lb u where l: "c_loop (serve_body fd hw opt) (False, 0) w = Some ((rc, lb), u)"
    and w': "w' = free_buf lb u"
    by (auto simp: serve_connection_def split: Option.bind_splits)
  have "keeps (buf_blocks (snd (rc, lb))) w u"
    using l
  proof (rule c_loop_inv [where I = "\<lambda>lb v. keeps (buf_blocks lb) w v"])
    show "keeps (buf_blocks (False, 0)) w w" by (simp add: buf_blocks_def)
  next
    fix lb v lb' v'
    assume "keeps (buf_blocks lb) w v" and "serve_body fd hw opt lb v = Some (Inl lb', v')"
    then show "keeps (buf_blocks lb') w v'"
      using keeps_trans [OF _ serve_body_keeps] by (fastforce simp: round_buf_def)
  next
    fix lb v a v'
    assume "keeps (buf_blocks lb) w v" and "serve_body fd hw opt lb v = Some (Inr a, v')"
    then show "keeps (buf_blocks (snd a)) w v'"
      using keeps_trans [OF _ serve_body_keeps] by (cases a) (fastforce simp: round_buf_def)
  qed
  then show ?thesis unfolding w' using free_buf_keeps [of "buf_blocks lb" w u lb] by simp
qed

section \<open>The server\<close>

lemma close_keeps:
  assumes "open_fds (hist w1) = add_mset fd (open_fds (hist w))" "mappings (hist w1) = mappings (hist w)"
    "live_blocks (hist w1) = live_blocks (hist w)" and "keeps n w1 w2"
  shows "keeps n w (sys_close fd w2)"
  using assms by (simp add: keeps_def sys_close_def)

lemma accept_body_keeps:
  assumes "accept_body hw opt s w = Some (r, w')"
  shows "keeps 0 w w'"
proof -
  obtain stop w1 where 1: "sys_stopped w = (stop, w1)" by force
  then have k1: "keeps 0 w w1" by (auto simp: sys_stopped_def Let_def keeps_def)
  obtain a w2 where 2: "sys_accept w1 = (a, w2)" by force
  then have w2: "w2 = log (EvAccept a) w1" by (auto simp: sys_accept_def Let_def)
  show ?thesis
  proof (cases "\<not> stop \<and> (\<exists>fd. a = AConn fd)")
    case True
    then obtain fd where a: "a = AConn fd" by blast
    with assms 1 2 True obtain x w3 where sc: "serve_connection fd hw opt w2 = Some (x, w3)" "w' = sys_close fd w3"
      by (auto simp: accept_body_def split: Option.bind_splits)
    have "keeps 0 w1 w'"
      unfolding sc(2) by (rule close_keeps [OF _ _ _ serve_connection_keeps [OF sc(1)]]) (simp_all add: w2 a)
    with k1 show ?thesis by (rule keeps_after)
  next
    case False
    with assms 1 2 have "w' = w1 \<or> w' = w2 \<and> (a = AEintr \<or> a = AError)"
      by (cases a) (auto simp: accept_body_def split: if_splits)
    with k1 show ?thesis by (auto simp: w2 keeps_def)
  qed
qed

text \<open>Opening and closing the hardware does not touch the heap.\<close>

definition same_heap :: "world \<Rightarrow> world \<Rightarrow> bool" where
  "same_heap w w' \<longleftrightarrow> live_blocks (hist w') = live_blocks (hist w)"

lemma same_heap_trans: "same_heap w w1 \<Longrightarrow> same_heap w1 w2 \<Longrightarrow> same_heap w w2"
  by (simp add: same_heap_def)

lemma sysfs_read_line_heap: "sysfs_read_line path n w = (r, w') \<Longrightarrow> same_heap w w'"
  by (auto simp: sysfs_read_line_def sys_defs same_heap_def Let_def split: if_splits option.splits)

lemma uio_find_loop_heap: "uio_find_loop name n m ents out w = (r, w') \<Longrightarrow> same_heap w w'"
proof (induction ents arbitrary: out w)
  case (Cons ent ents)
  obtain dev sysname where out: "out = (dev, sysname)" by force
  obtain rc attr w1 where l: "sysfs_read_line (snprintf_buf 300 (''/sys/class/uio/'' @ ent @ ''/name'')) 128 w
      = ((rc, attr), w1)" by (metis prod.exhaust)
  show ?case
    using Cons.prems Cons.IH sysfs_read_line_heap [OF l] unfolding out uio_find_loop.simps Let_def l case_prod_conv
    by (auto intro: same_heap_trans split: if_splits)
qed (simp add: same_heap_def)

lemma uio_open_heap:
  assumes "uio_open name w = ((rc, u), w')"
  shows "same_heap w w'"
proof -
  obtain rc1 dev nm w1 where f: "(if take 5 name = ''/dev/''
      then ((0, snprintf_buf 64 name, snprintf_buf 64 (drop 5 name)), w)
      else uio_find name 64 64 w) = ((rc1, dev, nm), w1)" by (metis prod.exhaust)
  then have 1: "same_heap w w1"
    by (auto simp: uio_find_def sys_listdir_def Let_def same_heap_def split: if_splits option.splits
        dest!: uio_find_loop_heap)
  obtain rc2 attr w2 where l: "sysfs_read_line (snprintf_buf 300
      (''/sys/class/uio/'' @ drop 5 dev @ ''/maps/map0/size'')) 64 w1 = ((rc2, attr), w2)"
    by (metis prod.exhaust)
  with 1 have 2: "same_heap w w2" by (blast intro: same_heap_trans sysfs_read_line_heap)
  show ?thesis
    using assms 1 2 unfolding uio_open_def Let_def f case_prod_conv l
    by (auto simp: sys_open_def sys_mmap_def sys_close_def same_heap_def Let_def split: if_splits)
qed

lemma udmabuf_open_heap:
  assumes "udmabuf_open name w = ((rc, b), w')"
  shows "same_heap w w'"
proof -
  obtain rc1 attr1 w1 where 1: "sysfs_read_line (attr_path name ''phys_addr'') 64 w = ((rc1, attr1), w1)"
    by (metis prod.exhaust)
  obtain rc2 attr2 w2 where 2: "sysfs_read_line (attr_path name ''size'') 64 w1 = ((rc2, attr2), w2)"
    by (metis prod.exhaust)
  show ?thesis
    using assms 1 2 sysfs_read_line_heap [OF 1] sysfs_read_line_heap [OF 2]
    by (auto simp: udmabuf_open_def udmabuf_sysfs_read_line_eq Let_def sys_open_def sys_mmap_def sys_close_def
        same_heap_def split: if_splits)
qed

lemma uio_close_heap: "uio_close u w = (u', w') \<Longrightarrow> same_heap w w'"
  by (auto simp: uio_close_def Let_def sys_close_def sys_munmap_def same_heap_def)

lemma udmabuf_close_heap: "udmabuf_close b w = (b', w') \<Longrightarrow> same_heap w w'"
  by (auto simp: udmabuf_close_def Let_def sys_close_def sys_munmap_def same_heap_def)

lemma hw_event_same_heap: "emits (hw_event k) w w' \<Longrightarrow> same_heap w w'"
  using hw_keeps [of k w w'] by (simp add: keeps_def same_heap_def)

lemma axidma_open_heap:
  assumes "axidma_open name w = Some ((rc, d), w')"
  shows "same_heap w w'"
proof -
  obtain rc1 u w1 where o: "uio_open name w = ((rc1, u), w1)" by (metis prod.exhaust)
  note h1 = uio_open_heap [OF o]
  show ?thesis
  proof (cases "rc1 = 0")
    case False
    with assms o h1 show ?thesis by (simp add: axidma_open_def)
  next
    case True
    with assms o obtain rr w2 where r: "axidma_reset \<lparr>dma_uio = u\<rparr> w1 = Some (rr, w2)"
      by (auto simp: axidma_open_def split: Option.bind_splits)
    have h2: "same_heap w w2"
      using h1 hw_event_same_heap [OF axidma_reset_after [OF r emits_refl, of 0]] by (rule same_heap_trans)
    obtain r3 u3 w3 where en: "uio_irq_enable u w2 = ((r3, u3), w3)" by (metis prod.exhaust)
    have h3: "same_heap w2 w3"
      by (rule hw_event_same_heap [OF emits_mono [OF uio_irq_enable_emits [OF en] on_fd_hw]])
    obtain u4 w4 where cl: "uio_close u w2 = (u4, w4)" by force
    from assms o True r en cl have "w' = w3 \<or> w' = w4" by (auto simp: axidma_open_def split: if_splits)
    with h2 h3 uio_close_heap [OF cl] show ?thesis by (blast intro: same_heap_trans)
  qed
qed

lemma hw_open_bufs_heap:
  assumes "hw_open_bufs opt hw0 w = Some ((rc, hw), w')"
  shows "same_heap w w'"
proof -
  obtain rc1 tx w1 where 1: "udmabuf_open (case opt_tx_buf opt of Some n \<Rightarrow> n | None \<Rightarrow> ''udmabuf-ojls-tx'') w = ((rc1, tx), w1)"
    by (metis prod.exhaust)
  obtain rc2 rx w2 where 2: "udmabuf_open (case opt_rx_buf opt of Some n \<Rightarrow> n | None \<Rightarrow> ''udmabuf-ojls-rx'') w1 = ((rc2, rx), w2)"
    by (metis prod.exhaust)
  obtain rc3 ds w3 where 3: "udmabuf_open (case opt_desc_buf opt of Some n \<Rightarrow> n | None \<Rightarrow> ''udmabuf-ojls-desc'') w2 = ((rc3, ds), w3)"
    by (metis prod.exhaust)
  note h = udmabuf_open_heap [OF 1] udmabuf_open_heap [OF 2] udmabuf_open_heap [OF 3]
  have "w' = w1 \<or> w' = w2 \<or> w' = w3"
    using assms unfolding hw_open_bufs_def Let_def 1 case_prod_conv 2 3 by (simp split: if_splits)
  with h show ?thesis by (auto simp: same_heap_def)
qed

lemma hw_open_heap:
  assumes "hw_open opt w = Some ((rc, hw), w')"
  shows "same_heap w w'"
proof -
  obtain rc1 regs w1 where 1: "uio_open (opt_regs_name opt) w = ((rc1, regs), w1)" by (metis prod.exhaust)
  obtain v2 w2 where 2: "uio_rd regs OJLS_REG_ID w1 = (v2, w2)" by force
  obtain v3 w3 where 3: "uio_rd regs OJLS_REG_VERSION w2 = (v3, w3)" by force
  obtain v4 w4 where 4: "uio_rd regs OJLS_REG_CAPS w3 = (v4, w4)" by force
  obtain v5 w5 where 5: "uio_rd regs OJLS_REG_MAXDIM w4 = (v5, w5)" by force
  obtain rc6 gate w6 where 6: "uio_open (opt_gate_name opt) w5 = ((rc6, gate), w6)" by (metis prod.exhaust)
  have r: "same_heap w w2" "same_heap w w1" "same_heap w2 w5"
    using 2 3 4 5 uio_open_heap [OF 1] by (auto simp: log_simps Let_def same_heap_def)
  with uio_open_heap [OF 6] have h6: "same_heap w w6" by (blast intro: same_heap_trans)
  from assms have "w' = w1 \<or> w' = w2 \<or> w' = w6 \<or> (\<exists>rc3 dma w7. axidma_open (opt_dma_name opt) w6 = Some ((rc3, dma), w7) \<and>
      (w' = w7 \<or> (\<exists>hw0. hw_open_bufs opt hw0 w7 = Some ((rc, hw), w'))))"
    unfolding hw_open_def Let_def 1 case_prod_conv 2 3 4 5 6
    by (auto split: if_splits Option.bind_splits)
  with r h6 show ?thesis by (blast intro: same_heap_trans axidma_open_heap hw_open_bufs_heap)
qed

lemma hw_close_heap: "hw_close hw w = (hw', w') \<Longrightarrow> same_heap w w'"
  by (auto simp: hw_close_def axidma_close_def Let_def split: prod.splits
      dest!: udmabuf_close_heap uio_close_heap) (simp add: same_heap_def)

lemma server_listen_keeps:
  assumes run: "server_listen hw opt w = Some (0, w')" and up: "\<not> opt_loopback opt \<Longrightarrow> hw_up hw"
  shows "open_fds (hist w') = open_fds (hist w) - (if opt_loopback opt then {#} else hw_fds hw) \<and>
    mappings (hist w') = mappings (hist w) - (if opt_loopback opt then {#} else hw_maps hw) \<and> same_heap w w'"
proof -
  obtain lfd w1 where 1: "sys_socket w = (lfd, w1)" by force
  obtain ok w2 where 2: "sys_listen lfd (of_int (opt_port opt)) w1 = (ok, w2)" by force
  have ok: "\<not> lfd < 0" ok using run 1 2 by (auto simp: server_listen_def split: if_splits)
  with run 1 2 obtain x w3 where 3: "c_loop (accept_body hw opt) () w2 = Some (x, w3)"
    and w': "w' = (if opt_loopback opt then sys_close lfd w3 else snd (hw_close hw (sys_close lfd w3)))"
    by (auto simp: server_listen_def Let_def split: Option.bind_splits)
  have "keeps 0 w2 w3"
    using 3
  proof (rule c_loop_inv [where I = "\<lambda>_ u. keeps 0 w2 u"])
  qed (auto intro: keeps_after accept_body_keeps)
  moreover from 1 2 ok have "open_fds (hist w2) = add_mset lfd (open_fds (hist w))" "mappings (hist w2) = mappings (hist w)"
    "live_blocks (hist w2) = live_blocks (hist w)"
    by (auto simp: sys_socket_def sys_listen_def Let_def)
  ultimately have k: "keeps 0 w (sys_close lfd w3)" by (intro close_keeps)
  show ?thesis
  proof (cases "opt_loopback opt")
    case True
    with k show ?thesis by (simp add: w' keeps_def same_heap_def)
  next
    case False
    obtain hw' w5 where c: "hw_close hw (sys_close lfd w3) = (hw', w5)" by force
    with hw_close_down [OF c up [OF False]] hw_close_heap [OF c] k False show ?thesis
      by (simp add: w' keeps_def same_heap_def)
  qed
qed


text \<open>A loopback server that serves one connection and then stops.\<close>

definition one_client_env :: "u8 list \<Rightarrow> env" where
  "one_client_env input = (sample_env input)
     \<lparr>env_accept := (\<lambda>h. AConn 7), env_stop := (\<lambda>h. EvClose 7 \<in> set h)\<rparr>"

definition one_request :: "u8 list" where
  "one_request = [83, 76, 74, 79, 1, 0, 1, 0, 2, 0, 1, 0, 8, 0, 0, 0, 2, 0, 0, 0, 7, 9]"

lemma one_client_run:
  "map_option (\<lambda>(rc, w). (rc, sent 7 w)) (server_main [''--loopback''] (start_world (one_client_env one_request))) =
     Some (0, [83, 76, 74, 79, 1, 0, 2, 0, 2, 0, 1, 0, 8, 0, 0, 0, 2, 0, 0, 0, 7, 9])"
  by code_simp


end
