(* ===== verification/OJLS_Live.thy ===== *)
theory OJLS_Live
  imports OJLS_Session
begin

text \<open>
  Every request is handled in finite time: the loops of the server come back when the clock
  goes on, signals stop interrupting the calls and the peer takes what is written. \<open>lively\<close> is
  the contract of an operation that comes back in such an environment and leaves it as it is;
  the handlers have it because their calls have it. With a peer that sends finitely many bytes
  a whole connection comes to its end.
\<close>

unbundle bit_operations_syntax

section \<open>Operations that come back\<close>

definition lively :: "env \<Rightarrow> 'a io \<Rightarrow> bool" where
  "lively E m \<longleftrightarrow> (\<forall>w. world_env w = E \<longrightarrow> (\<exists>r w'. m w = Some (r, w') \<and> world_env w' = E))"

lemma livelyI:
  "(\<And>w. world_env w = E \<Longrightarrow> returns (m w)) \<Longrightarrow> (\<And>w r w'. m w = Some (r, w') \<Longrightarrow> world_env w' = world_env w) \<Longrightarrow> lively E m"
  unfolding lively_def returns_ex by (metis prod.exhaust)

lemma livelyE:
  assumes "lively E m" and "world_env w = E"
  obtains r w' where "m w = Some (r, w')" "world_env w' = E"
  using assms unfolding lively_def by blast

lemma lively_any_fails: "list_all (lively E) ms \<Longrightarrow> lively E (any_fails ms)"
proof (induction ms)
  case Nil
  then show ?case by (auto simp: lively_def)
next
  case (Cons m ms)
  show ?case
    unfolding lively_def
  proof (intro allI impI)
    fix w :: world
    assume "world_env w = E"
    with Cons.prems obtain rc w1 where 1: "m w = Some (rc, w1)" "world_env w1 = E" by (auto elim: livelyE)
    with Cons obtain b w2 where 2: "any_fails ms w1 = Some (b, w2)" "world_env w2 = E" by (auto elim: livelyE)
    show "\<exists>r w'. any_fails (m # ms) w = Some (r, w') \<and> world_env w' = E"
      using 1 2 by (cases "rc = 0") auto
  qed
qed

lemma lively_io_of: "(\<And>w r w'. f w = (r, w') \<Longrightarrow> world_env w' = world_env w) \<Longrightarrow> lively E (io_of f)"
  unfolding lively_def io_of_def by (metis prod.exhaust)

text \<open>The environments in which the server makes progress on a connection and on the board.\<close>

definition responsive :: "env \<Rightarrow> int \<Rightarrow> hw \<Rightarrow> bool" where
  "responsive E fd hw \<longleftrightarrow> clock_diverges E \<and> (\<exists>k. read_intr_bound E fd k) \<and> (\<exists>k. write_stall_bound E fd k) \<and>
     (\<exists>k. poll_intr_bound E (u_fd (dma_uio (hw_dma hw))) k)"

lemma lively_recv: "responsive E fd hw \<Longrightarrow> lively E (recv_full fd dst n)"
  unfolding responsive_def
  by (intro livelyI) (auto intro: srv.recv_returns dest: srv.recv_env)

lemma lively_drain: "responsive E fd hw \<Longrightarrow> lively E (drain fd n)"
  unfolding responsive_def
  by (intro livelyI) (auto intro: drain_returns dest: emits_env [OF drain_emits])

lemma lively_send: "responsive E fd hw \<Longrightarrow> src_fits buf n \<Longrightarrow> lively E (send_full fd buf n)"
  unfolding responsive_def
  by (intro livelyI) (auto intro: srv.send_returns dest: srv.send_env)

lemma lively_send_hdr: "responsive E fd hw \<Longrightarrow> lively E (send_full fd (Local (hdr_bytes h)) OJLS_PROTO_HDR_LEN)"
  by (rule lively_send) (simp_all add: consts_defs)

lemma lively_send_error: "responsive E fd hw \<Longrightarrow> lively E (send_error fd req st)"
  unfolding send_error_def by (rule lively_send_hdr)

section \<open>The hardware operations\<close>

lemma hw_env: "emits (hw_event 0) w w' \<Longrightarrow> world_env w' = world_env w"
  by (rule emits_env)

lemma lively_configure: "responsive E fd hw \<Longrightarrow> lively E (hw_configure hw wd ht)"
  unfolding responsive_def
  by (intro livelyI) (auto intro: hw_configure_returns dest: hw_env [OF hw_configure_after [OF _ emits_refl]])

lemma lively_reset: "responsive E fd hw \<Longrightarrow> lively E (axidma_reset (hw_dma hw))"
  unfolding responsive_def
  by (intro livelyI) (auto intro: hw_ops_return dest: hw_env [OF axidma_reset_after [OF _ emits_refl]])

lemma lively_recover: "responsive E fd hw \<Longrightarrow> lively E (hw_recover hw wd ht)"
  unfolding responsive_def
  by (intro livelyI) (auto intro: hw_recover_returns dest: hw_env [OF hw_recover_after [OF _ emits_refl]])

lemma lively_wait: "responsive E fd hw \<Longrightarrow> lively E (axidma_wait (hw_dma hw) chan ring ms)"
  unfolding responsive_def
  by (intro livelyI) (auto intro: hw_ops_return dest: emits_env [OF axidma_wait_after [OF _ emits_refl]])

lemma lively_wait_packets: "responsive E fd hw \<Longrightarrow> lively E (axidma_wait_packets (hw_dma hw) ring ms)"
  unfolding responsive_def
  by (intro livelyI) (auto intro: hw_ops_return dest: emits_env [OF axidma_wait_packets_after [OF _ emits_refl]])

lemma lively_gate: "lively E (io_of (gate_set hw pct))"
  by (rule lively_io_of) (rule hw_env [OF gate_set_after [OF _ emits_refl]])

lemma lively_to_device: "lively E (io_of (udmabuf_sync_for_device b off n))"
  by (rule lively_io_of) (rule to_device.sync_env)

lemma lively_to_cpu: "lively E (io_of (udmabuf_sync_for_cpu b off n))"
  by (rule lively_io_of) (rule to_cpu.sync_env)

lemma lively_start: "lively E (io_of (axidma_sg_start d chan ring))"
  by (rule lively_io_of) (rule hw_env [OF sg_start_after [OF _ emits_refl]])

lemma lively_prepare:
  "responsive E fd hw \<Longrightarrow> lively E (any_fails [hw_configure hw wd ht, io_of (gate_set hw pct),
     io_of (udmabuf_sync_for_device b off n), axidma_reset (hw_dma hw)])"
  by (rule lively_any_fails) (simp add: lively_configure lively_gate lively_to_device lively_reset)

lemma lively_starts: "lively E (any_fails [io_of (axidma_sg_start d c1 r1), io_of (axidma_sg_start d c2 r2)])"
  by (rule lively_any_fails) (simp add: lively_start)

section \<open>The handlers\<close>

lemma lively_encode_reply:
  assumes resp: "responsive E fd hw"
  shows "lively E (encode_reply fd hw req s2mm)"
  unfolding lively_def
proof (intro allI impI)
  fix w :: world
  assume w: "world_env w = E"
  obtain t w1 where 1: "now_us w = (t, w1)" by force
  obtain n w2 where 2: "axidma_ring_bytes s2mm w1 = (n, w2)" by force
  obtain sy w3 where 3: "udmabuf_sync_for_cpu (rg_b (hw_rx hw)) (rg_off (hw_rx hw)) n w2 = (sy, w3)" by force
  have "emits (hw_event 0) w w3"
    by (intro to_cpu_after [OF 3] ring_bytes_after [OF 2] now_us_after [OF 1] emits_refl)
  with w have w3: "world_env w3 = E" by (simp add: hw_env)
  have "lively E (any_fails [send_full fd (Local (hdr_bytes (encode_resp req n))) OJLS_PROTO_HDR_LEN,
      send_full fd (Mem (region_mem (hw_rx hw))) (unat n)])"
    by (rule lively_any_fails) (simp add: lively_send_hdr [OF resp] lively_send [OF resp])
  from livelyE [OF this w3] obtain b w4 where "any_fails [send_full fd (Local (hdr_bytes (encode_resp req n))) OJLS_PROTO_HDR_LEN,
      send_full fd (Mem (region_mem (hw_rx hw))) (unat n)] w3 = Some (b, w4)" "world_env w4 = E" by blast
  with w3 1 2 3 show "\<exists>r w'. encode_reply fd hw req s2mm w = Some (r, w') \<and> world_env w' = E"
    by (auto simp: encode_reply_def simp del: any_fails.simps)
qed

lemma lively_encode_and_reply:
  assumes resp: "responsive E fd hw"
  shows "lively E (encode_and_reply fd hw req ms)"
  unfolding lively_def
proof (intro allI impI)
  fix w :: world
  assume w: "world_env w = E"
  from livelyE [OF lively_prepare [OF resp] w] obtain bad1 w1 where p: "any_fails
       [hw_configure hw (h_width req) (h_height req), io_of (gate_set hw 100),
        io_of (udmabuf_sync_for_device (rg_b (hw_tx hw)) (rg_off (hw_tx hw)) (h_payload_len req)),
        axidma_reset (hw_dma hw)] w = Some (bad1, w1)" "world_env w1 = E" by blast
  obtain rings w2 where b: "build_rings hw (ucast (rg_size (hw_rx hw))) AXIDMA_DESC_CHUNK (h_payload_len req) w1 = (rings, w2)"
    by force
  then have w2: "world_env w2 = E" using p(2) by (auto dest: hw_env [OF build_rings_after [OF _ emits_refl]])
  obtain sy w3 where s: "udmabuf_sync_for_device (hw_desc_buf hw) 0 (b_size (hw_desc_buf hw)) w2 = (sy, w3)" by force
  then have w3: "world_env w3 = E" using w2 by (simp add: to_device.sync_env)
  obtain t w4 where n: "now_us w3 = (t, w4)" by force
  then have w4: "world_env w4 = E" using w3 by (auto dest: now_us_log)
  show "\<exists>r w'. encode_and_reply fd hw req ms w = Some (r, w') \<and> world_env w' = E"
  proof (cases "bad1 \<or> rings = None \<or> sy \<noteq> 0")
    case True
    with p b s w2 w3 show ?thesis by (auto simp: encode_and_reply_def simp del: any_fails.simps split: option.split)
  next
    case run: False
    then obtain s2mm mm2s where r: "rings = Some (s2mm, mm2s)" by auto
    from livelyE [OF lively_starts w4] obtain bad2 w5 where st: "any_fails
        [io_of (axidma_sg_start (hw_dma hw) AXIDMA_S2MM s2mm), io_of (axidma_sg_start (hw_dma hw) AXIDMA_MM2S mm2s)] w4 = Some (bad2, w5)"
      "world_env w5 = E" by blast
    from livelyE [OF lively_wait [OF resp] st(2)] obtain rc w6 where
      wt: "axidma_wait (hw_dma hw) AXIDMA_S2MM s2mm ms w5 = Some (rc, w6)" "world_env w6 = E" by blast
    from livelyE [OF lively_recover [OF resp] wt(2)] obtain x w7 where
      rec: "hw_recover hw (h_width req) (h_height req) w6 = Some (x, w7)" "world_env w7 = E" by blast
    from livelyE [OF lively_encode_reply [OF resp] wt(2)] obtain y w8 where
      rep: "encode_reply fd hw req s2mm w6 = Some (y, w8)" "world_env w8 = E" by blast
    show ?thesis
      using p b s n r st wt rec rep run
      by (cases bad2; cases "rc = 0") (auto simp: encode_and_reply_def simp del: any_fails.simps)
  qed
qed

lemma lively_stream_send:
  assumes resp: "responsive E fd hw" and len: "length lens = unat cnt"
    and fits: "\<And>i. i < length lens \<Longrightarrow> src_fits (src_at base (of_nat i * slot)) (unat (lens ! i))"
  shows "lively E (stream_send fd req st base slot lens cnt)"
  unfolding lively_def
proof (intro allI impI)
  fix w :: world
  assume w: "world_env w = E"
  let ?ms = "send_full fd (Local (hdr_bytes (stream_resp req st (stream_total lens cnt)))) OJLS_PROTO_HDR_LEN
      # map (send_len fd lens) [0..<unat cnt] @ map (send_image fd base slot lens) [0..<unat cnt]"
  have l: "lively E (send_len fd lens i)" for i
    using lively_send [OF resp, of "Local (u32_bytes (lens ! i))" 4] by (simp add: send_len_def [abs_def])
  have im: "lively E (send_image fd base slot lens i)" if "i < unat cnt" for i
    using lively_send [OF resp fits] that len by (simp add: send_image_def [abs_def])
  have "lively E (any_fails ?ms)"
    by (rule lively_any_fails) (auto simp: list_all_iff l im lively_send_hdr [OF resp])
  from livelyE [OF this w] obtain b w1 where "any_fails ?ms w = Some (b, w1)" "world_env w1 = E" by blast
  then show "\<exists>r w'. stream_send fd req st base slot lens cnt w = Some (r, w') \<and> world_env w' = E"
    by (auto simp: stream_send_def simp del: any_fails.simps)
qed

lemma lively_stream_reply:
  assumes resp: "responsive E fd hw"
  shows "lively E (stream_reply fd hw req cnt slot s2mm status)"
  unfolding lively_def
proof (intro allI impI)
  fix w :: world
  assume w: "world_env w = E"
  have "lively E (any_fails [io_of (udmabuf_sync_for_cpu (hw_desc_buf hw) 0 (cnt * of_nat desc_size)),
      io_of (udmabuf_sync_for_cpu (rg_b (hw_rx hw)) (rg_off (hw_rx hw)) (slot * cnt))])"
    by (rule lively_any_fails) (simp add: lively_to_cpu)
  from livelyE [OF this w] obtain bad w1 where a: "any_fails
       [io_of (udmabuf_sync_for_cpu (hw_desc_buf hw) 0 (cnt * of_nat desc_size)),
        io_of (udmabuf_sync_for_cpu (rg_b (hw_rx hw)) (rg_off (hw_rx hw)) (slot * cnt))] w = Some (bad, w1)" "world_env w1 = E"
    by blast
  obtain lens w2 where l: "closed_lens s2mm (unat cnt) 0 w1 = (lens, w2)" by force
  have w2: "world_env w2 = E" using a(2) hw_env [OF closed_lens_after [OF l emits_refl]] by simp
  have "lively E (stream_send fd req status (Mem (region_mem (hw_rx hw))) slot lens cnt)"
    by (rule lively_stream_send [OF resp closed_lens_length [OF l]]) simp
  from livelyE [OF this w2] obtain rc w3 where
    "stream_send fd req status (Mem (region_mem (hw_rx hw))) slot lens cnt w2 = Some (rc, w3)" "world_env w3 = E" by blast
  with a l show "\<exists>r w'. stream_reply fd hw req cnt slot s2mm status w = Some (r, w') \<and> world_env w' = E"
    by (cases bad) (auto simp: stream_reply_def sys_free_def simp del: any_fails.simps)
qed

lemma lively_stream_and_reply:
  assumes resp: "responsive E fd hw"
  shows "lively E (stream_and_reply fd hw req cnt ms)"
  unfolding lively_def
proof (intro allI impI)
  fix w :: world
  assume w: "world_env w = E"
  define slot where "slot = stream_slot_bytes (h_payload_len req div cnt)"
  define pct :: u32 where "pct = (if h_ready_pct req \<noteq> 0 then ucast (h_ready_pct req) else 100)"
  note sr = stream_and_reply_def [of fd hw req cnt ms w, unfolded Let_def, folded slot_def pct_def]
  from livelyE [OF lively_prepare [OF resp] w] obtain bad1 w1 where p: "any_fails
       [hw_configure hw (h_width req) (h_height req), io_of (gate_set hw pct),
        io_of (udmabuf_sync_for_device (rg_b (hw_tx hw)) (rg_off (hw_tx hw)) (h_payload_len req)),
        axidma_reset (hw_dma hw)] w = Some (bad1, w1)" "world_env w1 = E" by blast
  obtain rings w2 where b: "build_rings hw (ucast slot * ucast cnt) slot (h_payload_len req) w1 = (rings, w2)" by force
  then have w2: "world_env w2 = E" using p(2) by (auto dest: hw_env [OF build_rings_after [OF _ emits_refl]])
  obtain sy w3 where s: "udmabuf_sync_for_device (hw_desc_buf hw) 0 (b_size (hw_desc_buf hw)) w2 = (sy, w3)" by force
  then have w3: "world_env w3 = E" using w2 by (simp add: to_device.sync_env)
  obtain ok w4 where c: "sys_calloc cnt 4 w3 = (ok, w4)" by force
  then have w4: "world_env w4 = E" using w3 by (auto simp: sys_calloc_def Let_def)
  obtain t w5 where n: "now_us w4 = (t, w5)" by force
  then have w5: "world_env w5 = E" using w4 by (auto dest: now_us_log)
  show "\<exists>r w'. stream_and_reply fd hw req cnt ms w = Some (r, w') \<and> world_env w' = E"
  proof (cases "bad1 \<or> rings = None \<or> sy \<noteq> 0 \<or> \<not> ok")
    case True
    with p b s c w2 w3 w4 show ?thesis by (auto simp: sr simp del: any_fails.simps split: option.split)
  next
    case run: False
    then obtain s2mm mm2s where r: "rings = Some (s2mm, mm2s)" by auto
    from livelyE [OF lively_starts w5] obtain bad2 w6 where st: "any_fails
        [io_of (axidma_sg_start (hw_dma hw) AXIDMA_S2MM s2mm), io_of (axidma_sg_start (hw_dma hw) AXIDMA_MM2S mm2s)] w5 = Some (bad2, w6)"
      "world_env w6 = E" by blast
    from livelyE [OF lively_wait_packets [OF resp] st(2)] obtain rc w7 where
      wt: "axidma_wait_packets (hw_dma hw) s2mm ms w6 = Some (rc, w7)" "world_env w7 = E" by blast
    obtain t8 w8 where n8: "now_us w7 = (t8, w8)" by force
    then have w8: "world_env w8 = E" using wt(2) by (auto dest: now_us_log)
    from livelyE [OF lively_recover [OF resp] w8] obtain x w9 where
      rec: "hw_recover hw (h_width req) (h_height req) w8 = Some (x, w9)" "world_env w9 = E" by blast
    from livelyE [OF lively_stream_reply [OF resp] rec(2)] obtain y w10 where
      bad: "stream_reply fd hw req cnt slot s2mm (if rc = -2 then OJLS_ST_HW_TIMEOUT else OJLS_ST_HW_ERROR) w9 = Some (y, w10)"
      "world_env w10 = E" by blast
    from livelyE [OF lively_stream_reply [OF resp] w8] obtain z w11 where
      good: "stream_reply fd hw req cnt slot s2mm OJLS_ST_OK w8 = Some (z, w11)" "world_env w11 = E" by blast
    show ?thesis
      using p b s c n r st wt n8 rec bad good run
      by (cases bad2; cases "rc = 0") (auto simp: sr sys_free_def simp del: any_fails.simps)
  qed
qed

lemma lively_loopback_reply:
  assumes resp: "responsive E fd hw" and pl: "length pl = unat (h_payload_len req)"
    and st: "h_type req = OJLS_MSG_STREAM_REQ \<Longrightarrow> image_bytes_of req \<noteq> 0 \<and> h_payload_len req mod image_bytes_of req = 0"
  shows "lively E (loopback_reply fd req (Local pl))"
  unfolding lively_def
proof (intro allI impI)
  fix w :: world
  assume w: "world_env w = E"
  show "\<exists>r w'. loopback_reply fd req (Local pl) w = Some (r, w') \<and> world_env w' = E"
  proof (cases "h_type req = OJLS_MSG_STREAM_REQ")
    case True
    let ?sz = "image_bytes_of req" and ?cnt = "h_payload_len req div image_bytes_of req"
    obtain ok w1 where m: "sys_malloc (unat (?cnt * 4)) w = (ok, w1)" by force
    then have w1: "world_env w1 = E" using w by (auto simp: sys_malloc_def Let_def)
    have fits: "src_fits (src_at (Local pl) (of_nat i * ?sz)) (unat (replicate (unat ?cnt) ?sz ! i))"
      if "i < length (replicate (unat ?cnt) ?sz)" for i
    proof -
      from that have i: "i < unat ?cnt" by simp
      note o = slot_offset [OF conjunct1 [OF st [OF True]] conjunct2 [OF st [OF True]] i]
      have "unat ?sz \<le> length pl - i * unat ?sz" using o(2) pl by simp
      with i o(1) show ?thesis by simp
    qed
    have "lively E (stream_send fd req OJLS_ST_OK (Local pl) ?sz (replicate (unat ?cnt) ?sz) ?cnt)"
      by (rule lively_stream_send [OF resp _ fits]) simp_all
    from livelyE [OF this w1] obtain rc w2 where
      "stream_send fd req OJLS_ST_OK (Local pl) ?sz (replicate (unat ?cnt) ?sz) ?cnt w1 = Some (rc, w2)" "world_env w2 = E" by blast
    with True m w1 show ?thesis by (cases ok) (auto simp: loopback_reply_def Let_def sys_free_def)
  next
    case False
    let ?ms = "[send_full fd (Local (hdr_bytes (req\<lparr>h_type := OJLS_MSG_ENCODE_RESP, h_status := OJLS_ST_OK\<rparr>))) OJLS_PROTO_HDR_LEN,
       send_full fd (Local pl) (unat (h_payload_len req))]"
    have "lively E (any_fails ?ms)"
      by (rule lively_any_fails) (simp add: lively_send_hdr [OF resp] lively_send [OF resp] pl)
    from livelyE [OF this w] obtain b w1 where "any_fails ?ms w = Some (b, w1)" "world_env w1 = E" by blast
    with False show ?thesis by (auto simp: loopback_reply_def simp del: any_fails.simps)
  qed
qed

section \<open>A round of the connection loop\<close>

lemma lively_serve_reject:
  assumes resp: "responsive E fd hw"
  shows "lively E (serve_reject fd req st)"
  unfolding lively_def
proof (intro allI impI)
  fix w :: world
  assume w: "world_env w = E"
  have "lively E (any_fails [drain fd (unat (h_payload_len req)), send_error fd req st])"
    by (rule lively_any_fails) (simp add: lively_drain [OF resp] lively_send_error [OF resp])
  from livelyE [OF this w] obtain b w1 where
    "any_fails [drain fd (unat (h_payload_len req)), send_error fd req st] w = Some (b, w1)" "world_env w1 = E" by blast
  then show "\<exists>r w'. serve_reject fd req st w = Some (r, w') \<and> world_env w' = E"
    by (simp add: serve_reject_def del: any_fails.simps)
qed

lemma lively_serve_loopback:
  assumes resp: "responsive E fd hw"
    and st: "h_type req = OJLS_MSG_STREAM_REQ \<Longrightarrow> image_bytes_of req \<noteq> 0 \<and> h_payload_len req mod image_bytes_of req = 0"
  shows "lively E (serve_loopback fd req lb)"
  unfolding lively_def
proof (intro allI impI)
  fix w :: world
  assume w: "world_env w = E"
  obtain lb1 w1 where g: "grow_loopbuf (h_payload_len req) lb w = (lb1, w1)" by (metis prod.exhaust)
  then have w1: "world_env w1 = E"
    using w by (auto simp: grow_loopbuf_def sys_malloc_def free_buf_def sys_free_def Let_def split: if_splits)
  from livelyE [OF lively_recv [OF resp] w1] obtain x w2 where
    v: "recv_full fd None (unat (h_payload_len req)) w1 = Some (x, w2)" "world_env w2 = E" by blast
  obtain rc pl where x: "x = (rc, pl)" by force
  show "\<exists>r w'. serve_loopback fd req lb w = Some (r, w') \<and> world_env w' = E"
  proof (cases "snd lb < h_payload_len req \<and> \<not> fst lb1 \<or> rc \<noteq> 0")
    case True
    with w1 v show ?thesis unfolding serve_loopback_def g by (auto simp: x)
  next
    case False
    with v(1) have "length pl = unat (h_payload_len req)" by (auto simp: x dest: srv.recv_ok)
    from livelyE [OF lively_loopback_reply [OF resp this st] v(2)] obtain rr w3 where
      "loopback_reply fd req (Local pl) w2 = Some (rr, w3)" "world_env w3 = E" by blast
    with False v show ?thesis unfolding serve_loopback_def g by (auto simp: x)
  qed
qed

lemma lively_serve_hw:
  assumes resp: "responsive E fd hw"
  shows "lively E (serve_hw fd hw req cnt ms)"
  unfolding lively_def
proof (intro allI impI)
  fix w :: world
  assume w: "world_env w = E"
  from livelyE [OF lively_recv [OF resp] w] obtain x w1 where
    v: "recv_full fd (Some (region_mem (hw_tx hw))) (unat (h_payload_len req)) w = Some (x, w1)" "world_env w1 = E" by blast
  obtain rc pl where x: "x = (rc, pl)" by force
  have "lively E (if is_stream req then stream_and_reply fd hw req cnt ms else encode_and_reply fd hw req ms)"
    by (simp add: lively_stream_and_reply [OF resp] lively_encode_and_reply [OF resp])
  with v(2) obtain st w2 where h: "(if is_stream req then stream_and_reply fd hw req cnt ms w1
      else encode_and_reply fd hw req ms w1) = Some (st, w2)" "world_env w2 = E"
    unfolding lively_def by (cases "is_stream req") auto
  from livelyE [OF lively_send_error [OF resp] h(2)] obtain se w3 where
    "send_error fd req (of_int st) w2 = Some (se, w3)" "world_env w3 = E" by blast
  with v h show "\<exists>r w'. serve_hw fd hw req cnt ms w = Some (r, w') \<and> world_env w' = E"
    by (auto simp: serve_hw_def x)
qed

lemma check_stream_divides:
  assumes "check_request hw opt req = (OJLS_ST_OK, cnt)" and "h_type req = OJLS_MSG_STREAM_REQ"
  shows "image_bytes_of req \<noteq> 0 \<and> h_payload_len req mod image_bytes_of req = 0"
  using assms
  by (auto simp: check_request_def check_size_def is_stream_def Let_def consts_defs split: if_splits prod.splits)

lemma lively_serve_body:
  assumes resp: "responsive E fd hw"
  shows "lively E (serve_body fd hw opt lb)"
  unfolding lively_def
proof (intro allI impI)
  fix w :: world
  assume w: "world_env w = E"
  from livelyE [OF lively_recv [OF resp] w] obtain x w1 where
    v: "recv_full fd None OJLS_PROTO_HDR_LEN w = Some (x, w1)" "world_env w1 = E" by blast
  obtain rc raw where x: "x = (rc, raw)" by force
  let ?req = "ojls_hdr_unpack raw"
  obtain st cnt where chk: "check_request hw opt ?req = (st, cnt)" by force
  from livelyE [OF lively_send_error [OF resp] v(2)] obtain a w2 where
    1: "send_error fd ?req OJLS_ST_BAD_MAGIC w1 = Some (a, w2)" "world_env w2 = E" by blast
  from livelyE [OF lively_serve_reject [OF resp] v(2)] obtain b w3 where
    2: "serve_reject fd ?req st w1 = Some (b, w3)" "world_env w3 = E" by blast
  from livelyE [OF lively_serve_hw [OF resp] v(2)] obtain c w4 where
    3: "serve_hw fd hw ?req cnt (opt_timeout_ms opt) w1 = Some (c, w4)" "world_env w4 = E" by blast
  have 4: "\<exists>d w5. serve_loopback fd ?req lb w1 = Some (d, w5) \<and> world_env w5 = E" if "st = OJLS_ST_OK"
    using lively_serve_loopback [OF resp check_stream_divides] chk that v(2) by (auto simp: lively_def)
  show "\<exists>r w'. serve_body fd hw opt lb w = Some (r, w') \<and> world_env w' = E"
  proof (cases "st = OJLS_ST_OK")
    case True
    with 4 obtain d lb1 w5 where "serve_loopback fd ?req lb w1 = Some ((d, lb1), w5)" "world_env w5 = E" by auto
    with v x chk 1 3 True show ?thesis
      by (cases "h_magic ?req = OJLS_PROTO_MAGIC"; cases "opt_loopback opt") (auto simp: serve_body_def Let_def)
  next
    case False
    with v x chk 1 2 show ?thesis
      by (cases "h_magic ?req = OJLS_PROTO_MAGIC") (auto simp: serve_body_def Let_def)
  qed
qed

section \<open>A connection comes to its end\<close>

text \<open>The peer sends at most \<open>n\<close> bytes on a connection; then it closes it, or it breaks.\<close>

definition input_bound :: "env \<Rightarrow> int \<Rightarrow> nat \<Rightarrow> bool" where
  "input_bound E fd n \<longleftrightarrow> (\<forall>h m bs. env_read E h fd m = RData bs \<longrightarrow> bs \<noteq> [] \<longrightarrow>
     length (concat (map (got_of fd) (rev h))) + length bs \<le> n)"

lemma recv_bounded:
  assumes "recv_full fd dst m w = Some ((rc, bs), w')" and "input_bound (world_env w) fd n" and "bs \<noteq> []"
  shows "length (rcvd fd w') \<le> n"
proof -
  let ?I = "\<lambda>buf u. world_env u = world_env w \<and> (buf = [] \<or> length (rcvd fd u) \<le> n)"
  have "?I (snd (rc, bs)) w'"
    using assms(1) unfolding recv_full_def
  proof (rule c_loop_inv [where I = ?I])
    fix buf u buf' u1
    assume I: "?I buf u" and b: "recv_body fd dst m buf u = Some (Inl buf', u1)"
    obtain v u2 where v: "sys_read fd (map_option (\<lambda>p. p + of_nat (length buf)) dst) (m - length buf) u = (v, u2)" by force
    have "length (rcvd fd u) + length (take (m - length buf) xs) \<le> n"
      if "env_read (world_env w) (hist u) fd (m - length buf) = RData xs" "take (m - length buf) xs \<noteq> []" for xs
    proof -
      from that(2) have "xs \<noteq> []" by auto
      with assms(2) that(1) have "length (rcvd fd u) + length xs \<le> n"
        unfolding input_bound_def rcvd_def trace_def by blast
      then show ?thesis by simp
    qed
    with I b v show "?I buf' u1"
      by (auto simp: recv_body_def sys_read_def clip_read_def Let_def split: if_splits rres.splits)
  next
    fix buf u a u1
    assume I: "?I buf u" and b: "recv_body fd dst m buf u = Some (Inr a, u1)"
    then show "?I (snd a) u1"
      by (auto simp: recv_body_def sys_read_def clip_read_def Let_def split: if_splits rres.splits)
  qed simp
  with assms(3) show ?thesis by simp
qed

text \<open>A round that goes on has received a header, within the bound.\<close>

lemma serve_body_progress:
  assumes b: "serve_body fd hw opt lb w = Some (Inl lb', w')" and bnd: "input_bound (world_env w) fd n"
    and fd: "\<not> opt_loopback opt \<Longrightarrow> fd \<noteq> u_fd (dma_uio (hw_dma hw))"
  shows "length (rcvd fd w) < n \<and> length (rcvd fd w) < length (rcvd fd w') \<and> world_env w' = world_env w"
proof -
  from b obtain raw w1 where v: "recv_full fd None OJLS_PROTO_HDR_LEN w = Some ((0, raw), w1)"
    by (auto simp: serve_body_def split: Option.bind_splits if_splits)
  have len: "length raw = 20" using srv.recv_ok [OF v] by (simp add: consts_defs)
  then have "raw \<noteq> []" by auto
  with recv_bounded [OF v bnd] have "length (rcvd fd w1) \<le> n" by blast
  with srv.recv_rcvd [OF v] len have "length (rcvd fd w) < n" by simp
  moreover obtain x where "good_exchange hw opt x" "rcvd fd w' = rcvd fd w @ ins_of [x]" "world_env w' = world_env w"
    using serve_body_ok [OF b fd] by (auto simp: body_ok_def)
  moreover then have "0 < length (ins_of [x])"
    by (cases x) (auto simp: good_exchange_def request_def ins_of_def consts_defs)
  ultimately show ?thesis by simp
qed


lemma sample_responsive: "responsive (world_env (start_world (sample_env input))) fd hw"
proof -
  have "world_env (start_world (sample_env input)) = sample_env input" by (simp add: start_world_def)
  with sample_clock_diverges [of input] sample_bounds [of input] show ?thesis
    unfolding responsive_def by auto
qed

lemma sample_input_bound: "input_bound (world_env (start_world (sample_env input))) fd (length input)"
  by (auto simp: input_bound_def start_world_def sample_env_def)


end
