(* ===== verification/OJLS_Wire.thy ===== *)
theory OJLS_Wire
  imports OJLS_Udmabuf
begin

text \<open>
  What the lowest layer promises, in one place: the header on the wire, the socket helpers,
  the cache hand-over and the opening of the devices. The upper layers use the lemmas behind
  these theorems through the interfaces \<open>codec\<close>, \<open>receiver\<close>, \<open>sender\<close> and \<open>cache_sync\<close>.
\<close>

unbundle bit_operations_syntax

section \<open>The header on the wire\<close>

text \<open>The number that bytes spell, least significant first.\<close>

fun le_value :: "u8 list \<Rightarrow> nat" where
  "le_value [] = 0"
| "le_value (b # bs) = unat b + 256 * le_value bs"

lemma unat_byte: "unat (ucast (drop_bit k (v :: 'a::len word)) :: u8) = unat v div 2 ^ k mod 256"
  by (simp add: unsigned_ucast_eq take_bit_eq_mod unsigned_drop_bit_eq drop_bit_eq_div [where a = "unat v"])

lemma bytes_spell_16: "n < 65536 \<Longrightarrow> n mod 256 + 256 * (n div 256 mod 256) = (n :: nat)"
  by (simp add: mod_less div_less_iff_less_mult)

lemma bytes_spell_32:
  assumes "n < 4294967296"
  shows "n mod 256 + 256 * (n div 256 mod 256 + 256 * (n div 65536 mod 256 + 256 * (n div 16777216 mod 256))) = (n :: nat)"
proof -
  have "n div 16777216 mod 256 = n div 16777216" using assms by (simp add: div_less_iff_less_mult)
  moreover have "n div 65536 = n div 65536 mod 256 + 256 * (n div 16777216)"
    using mod_div_mult_eq [of "n div 65536" 256] by (simp add: div_mult2_eq [symmetric] mult.commute)
  moreover have "n div 256 = n div 256 mod 256 + 256 * (n div 65536)"
    using mod_div_mult_eq [of "n div 256" 256] by (simp add: div_mult2_eq [symmetric] mult.commute)
  moreover have "n = n mod 256 + 256 * (n div 256)" by simp
  ultimately show ?thesis by metis
qed

lemma get_bytes:
  "ucast (ojls_get_u16 buf p) = buf ! p" "ucast (drop_bit 8 (ojls_get_u16 buf p)) = buf ! (p + 1)"
  "ucast (ojls_get_u32 buf p) = buf ! p" "ucast (drop_bit 8 (ojls_get_u32 buf p)) = buf ! (p + 1)"
  "ucast (drop_bit 16 (ojls_get_u32 buf p)) = buf ! (p + 2)" "ucast (drop_bit 24 (ojls_get_u32 buf p)) = buf ! (p + 3)"
  unfolding ojls_get_u16_def ojls_get_u32_def by (rule bytes_word16 bytes_word32)+

lemma get_u16_value: "unat (ojls_get_u16 buf p) = le_value [buf ! p, buf ! (p + 1)]"
proof -
  let ?v = "ojls_get_u16 buf p"
  have "ucast (drop_bit 0 ?v) = buf ! p" "ucast (drop_bit 8 ?v) = buf ! (p + 1)"
    using get_bytes [of buf p] by simp_all
  then have "unat (buf ! p) = unat ?v mod 256" "unat (buf ! (p + 1)) = unat ?v div 256 mod 256"
    using unat_byte [of 0 ?v] unat_byte [of 8 ?v] by simp_all
  then show ?thesis using bytes_spell_16 [of "unat ?v"] unat_u16_less [of ?v] by simp
qed

lemma get_u32_value:
  "unat (ojls_get_u32 buf p) = le_value [buf ! p, buf ! (p + 1), buf ! (p + 2), buf ! (p + 3)]"
proof -
  let ?v = "ojls_get_u32 buf p"
  have "ucast (drop_bit 0 ?v) = buf ! p" "ucast (drop_bit 8 ?v) = buf ! (p + 1)"
    "ucast (drop_bit 16 ?v) = buf ! (p + 2)" "ucast (drop_bit 24 ?v) = buf ! (p + 3)"
    using get_bytes [of buf p] by simp_all
  then have "unat (buf ! p) = unat ?v mod 256" "unat (buf ! (p + 1)) = unat ?v div 256 mod 256"
    "unat (buf ! (p + 2)) = unat ?v div 65536 mod 256" "unat (buf ! (p + 3)) = unat ?v div 16777216 mod 256"
    using unat_byte [of 0 ?v] unat_byte [of 8 ?v] unat_byte [of 16 ?v] unat_byte [of 24 ?v] by simp_all
  then show ?thesis using bytes_spell_32 [of "unat ?v"] unat_u32_less [of ?v] by simp
qed

lemma list20: "length buf = 20 \<Longrightarrow> buf = [buf ! 0, buf ! 1, buf ! 2, buf ! 3, buf ! 4, buf ! 5, buf ! 6, buf ! 7,
    buf ! 8, buf ! 9, buf ! 10, buf ! 11, buf ! 12, buf ! 13, buf ! 14, buf ! 15, buf ! 16, buf ! 17, buf ! 18, buf ! 19]"
  by (rule nth_equalityI) (auto simp: numeral_eq_Suc less_Suc_eq)

lemma hdr_bytes_unpack:
  assumes "length buf = 20"
  shows "hdr_bytes (ojls_hdr_unpack buf) = buf[14 := 0, 15 := 0]"
proof -
  have "hdr_bytes (ojls_hdr_unpack buf) = [buf ! 0, buf ! 1, buf ! 2, buf ! 3, buf ! 4, buf ! 5, buf ! 6, buf ! 7,
    buf ! 8, buf ! 9, buf ! 10, buf ! 11, buf ! 12, buf ! 13, 0, 0, buf ! 16, buf ! 17, buf ! 18, buf ! 19]"
    unfolding hdr_bytes_def
    by (simp add: hdr_pack_bytes consts_defs ojls_hdr_unpack_def get_bytes numeral_2_eq_2)
  also have "\<dots> = buf[14 := 0, 15 := 0]"
    by (subst list20 [OF assms]) (simp add: numeral_eq_Suc)
  finally show ?thesis .
qed

text \<open>
  C20: The header on the wire. Parsing a packed header, whatever the buffer held and whatever
  follows it, gives the header back. Packing a parsed header gives the bytes back, but for the
  two reserved ones, which are cleared. The numbers are little-endian, at the offsets that the
  protocol gives.
\<close>

theorem hdr_roundtrip:
  assumes "length buf = 20"
  shows "ojls_hdr_unpack (ojls_hdr_pack buf h @ rest) = h \<and>
    hdr_bytes (ojls_hdr_unpack buf) = buf[14 := 0, 15 := 0] \<and>
    unat (h_magic (ojls_hdr_unpack buf)) = le_value (take 4 buf) \<and>
    unat (h_version (ojls_hdr_unpack buf)) = le_value (take 2 (drop 4 buf)) \<and>
    unat (h_width (ojls_hdr_unpack buf)) = le_value (take 2 (drop 8 buf)) \<and>
    unat (h_height (ojls_hdr_unpack buf)) = le_value (take 2 (drop 10 buf)) \<and>
    unat (h_payload_len (ojls_hdr_unpack buf)) = le_value (drop 16 buf)"
proof -
  have s: "take 4 buf = [buf ! 0, buf ! 1, buf ! 2, buf ! 3]" "take 2 (drop 4 buf) = [buf ! 4, buf ! 5]"
    "take 2 (drop 8 buf) = [buf ! 8, buf ! 9]" "take 2 (drop 10 buf) = [buf ! 10, buf ! 11]"
    "drop 16 buf = [buf ! 16, buf ! 17, buf ! 18, buf ! 19]"
    by (subst list20 [OF assms], simp add: numeral_eq_Suc)+
  have "unat (h_magic (ojls_hdr_unpack buf)) = le_value (take 4 buf)"
    "unat (h_version (ojls_hdr_unpack buf)) = le_value (take 2 (drop 4 buf))"
    "unat (h_width (ojls_hdr_unpack buf)) = le_value (take 2 (drop 8 buf))"
    "unat (h_height (ojls_hdr_unpack buf)) = le_value (take 2 (drop 10 buf))"
    "unat (h_payload_len (ojls_hdr_unpack buf)) = le_value (drop 16 buf)"
    unfolding s using get_u32_value [of buf 0] get_u32_value [of buf 16] get_u16_value [of buf 4]
      get_u16_value [of buf 8] get_u16_value [of buf 10]
    by (simp_all add: ojls_hdr_unpack_def numeral_2_eq_2)
  with hdr_unpack_pack_append [OF assms] hdr_bytes_unpack [OF assms] show ?thesis by blast
qed

theorem hdr_roundtrip_witness:
  "unat (h_payload_len (ojls_hdr_unpack [83, 76, 74, 79, 1, 0, 1, 0, 4, 0, 2, 0, 8, 0, 0, 0, 2, 1, 0, 0])) = 258"
proof -
  have "le_value (drop 16 [83, 76, 74, 79, 1, 0, 1, 0, 4, 0, 2, 0, 8, 0, 0, 0, 2, 1, 0, 0]) = 258" by simp
  with hdr_roundtrip [of "[83, 76, 74, 79, 1, 0, 1, 0, 4, 0, 2, 0, 8, 0, 0, 0, 2, 1, 0, 0]"] show ?thesis by simp
qed

section \<open>The socket helpers\<close>

text \<open>The last call was a read of \<open>fd\<close> that met the end of the stream.\<close>

definition at_eof :: "int \<Rightarrow> world \<Rightarrow> bool" where
  "at_eof fd w \<longleftrightarrow> (\<exists>dst n h. hist w = EvRead fd dst n (RData []) # h)"

lemma recv_codes:
  assumes "recv_full fd dst n w = Some ((rc, bs), w')"
  shows "(rc = 0 \<or> rc = 1 \<or> rc = -1) \<and> (rc = 1 \<longrightarrow> bs = [] \<and> at_eof fd w') \<and>
    (rc \<noteq> 0 \<longrightarrow> bs = [] \<longrightarrow> at_eof fd w' \<longrightarrow> rc = 1)"
proof -
  have "(fst x = 0 \<or> fst x = 1 \<or> fst x = -1) \<and> (fst x = 1 \<longrightarrow> snd x = [] \<and> at_eof fd w') \<and>
      (fst x \<noteq> 0 \<longrightarrow> snd x = [] \<longrightarrow> at_eof fd w' \<longrightarrow> fst x = 1)"
    if "c_loop (recv_body fd dst n) [] w = Some (x, w')" for x
    using that
    by (rule c_loop_inv [where I = "\<lambda>_ _. True"])
      (auto simp: recv_body_def sys_read_def at_eof_def Let_def split: if_splits rres.splits)
  from this [of "(rc, bs)"] assms show ?thesis by (simp add: recv_full_def)
qed

text \<open>
  C21: \<open>recv_full\<close> in every environment: the bytes it returns are exactly those it took off
  the connection, in order and never more than asked for, whatever the sizes of the reads and
  the interrupts; the result is 0 when they are all there, 1 when the peer closed before the
  first of them, and -1 otherwise. Nothing is sent meanwhile.
\<close>

theorem recv_full_contract:
  assumes "recv_full fd dst n w = Some ((rc, bs), w')"
  shows "rcvd fd w' = rcvd fd w @ bs \<and> length bs \<le> n \<and> (rc = 0 \<longleftrightarrow> length bs = n) \<and>
    (rc \<noteq> 0 \<longrightarrow> (rc = 1 \<longleftrightarrow> bs = [] \<and> at_eof fd w')) \<and> rc \<in> {0, 1, -1} \<and> sent fd' w' = sent fd' w"
proof (intro conjI)
  show "rc \<noteq> 0 \<longrightarrow> (rc = 1 \<longleftrightarrow> bs = [] \<and> at_eof fd w')" using recv_codes [OF assms] by blast
  show "rc \<in> {0, 1, -1}" using recv_codes [OF assms] by simp
qed (use srv.recv_contract [OF assms] srv.recv_sent [OF assms] in blast)+

theorem recv_full_contract_witness:
  "recv_full 5 None 4 (start_world (sample_env [1, 2, 3])) =
     Some ((-1, [1, 2, 3]), snd (the (recv_full 5 None 4 (start_world (sample_env [1, 2, 3]))))) \<and>
   rcvd 5 (snd (the (recv_full 5 None 4 (start_world (sample_env [1, 2, 3]))))) = [1, 2, 3]"
proof -
  have run: "map_option fst (recv_full 5 None 4 (start_world (sample_env [1, 2, 3]))) = Some (-1, [1, 2, 3])"
    by code_simp
  then obtain w' where w': "recv_full 5 None 4 (start_world (sample_env [1, 2, 3])) = Some ((-1, [1, 2, 3]), w')"
    by auto
  from recv_full_contract [OF w'] have "rcvd 5 w' = [1, 2, 3]"
    by (simp add: start_world_def rcvd_def trace_def)
  with w' show ?thesis by simp
qed

text \<open>
  C22: \<open>send_full\<close> in every environment: what leaves the board is a prefix of what the buffer
  holds, each byte once and in order, whatever the kernel takes per call, and all of it just
  when the result is 0. Nothing is received meanwhile.
\<close>

theorem send_full_contract:
  assumes "send_full fd buf n w = Some (rc, w')" and "src_fits buf n" and "holds w buf ds" and "n \<le> length ds"
  shows "(\<exists>k\<le>n. sent fd w' = sent fd w @ take k ds \<and> (rc = 0 \<longleftrightarrow> k = n)) \<and> rcvd fd' w' = rcvd fd' w"
proof -
  from srv.send_sent [OF assms(2,1)] assms(3,4) obtain bs where
    "sent fd w' = sent fd w @ bs" "length bs \<le> n" "rc = 0 \<longleftrightarrow> length bs = n" "bs = take (length bs) ds"
    by blast
  then have "\<exists>k\<le>n. sent fd w' = sent fd w @ take k ds \<and> (rc = 0 \<longleftrightarrow> k = n)" by metis
  with srv.send_rcvd [OF assms(1)] show ?thesis by blast
qed

text \<open>A peer that takes a byte per call, after an interrupt.\<close>

definition slow_env :: env where
  "slow_env = (sample_env [])\<lparr>env_write := (\<lambda>h fd bs. if h = [] then WEintr else WCount 1)\<rparr>"

theorem send_full_contract_witness:
  "\<exists>w'. send_full 5 (Local [7, 8, 9]) 3 (start_world slow_env) = Some (0, w') \<and> sent 5 w' = [7, 8, 9]"
proof -
  have "map_option fst (send_full 5 (Local [7, 8, 9]) 3 (start_world slow_env)) = Some 0" by code_simp
  then obtain w' where w': "send_full 5 (Local [7, 8, 9]) 3 (start_world slow_env) = Some (0, w')" by auto
  from send_full_contract [OF w', of "[7, 8, 9]"] have "sent 5 w' = take 3 [7, 8, 9]"
    by (auto simp: start_world_def sent_def trace_def)
  with w' show ?thesis by simp
qed

text \<open>
  C25: The loops of \<open>recv_full\<close>, \<open>send_full\<close> and \<open>drain\<close> end: after finitely many interrupted
  calls and writes without progress each of them comes back, for any amount of data.
\<close>

theorem socket_helpers_return:
  assumes "read_intr_bound (world_env w) fd k" and "write_stall_bound (world_env w) fd k'" and "src_fits buf n"
  shows "(\<exists>r w'. recv_full fd dst n w = Some (r, w')) \<and> (\<exists>r w'. drain fd n w = Some (r, w')) \<and>
    (\<exists>r w'. send_full fd buf n w = Some (r, w'))"
  using srv.recv_returns [OF assms(1)] drain_returns [OF assms(1)] srv.send_returns [OF assms(3,2)]
  unfolding returns_ex by auto

theorem socket_helpers_return_witness:
  "\<exists>r w'. drain 5 (2 ^ 32 - 1) (start_world (sample_env [1, 2, 3])) = Some (r, w')"
proof -
  have "world_env (start_world (sample_env [1, 2, 3])) = sample_env [1, 2, 3]" by (simp add: start_world_def)
  with socket_helpers_return [of "start_world (sample_env [1, 2, 3])" 5 0 0 "Mem 0" "2 ^ 32 - 1"] sample_bounds
  show ?thesis by simp
qed

section \<open>The cache hand-over\<close>

text \<open>
  C29: The two directions of the cache hand-over. Giving a stretch of a buffer to the device
  and taking it back write, when they report success, exactly the offset, the size and the
  direction (1 to the device, 2 from it) before the kick, to the attributes of this buffer. No
  stream stays open on any path, and nothing but sysfs attributes is touched.
\<close>

theorem hand_over_protocol:
  assumes "udmabuf_sync_for_device b off n w = (r1, w1)" and "udmabuf_sync_for_cpu b off n w1 = (r2, w2)"
  shows "same_resources w w1 \<and> same_resources w w2 \<and> emits is_attr w w2 \<and>
    (r1 = 0 \<longrightarrow> attrs_written (hist w1) =
      [(attr_path (b_name b) ''sync_for_device'', 1), (attr_path (b_name b) ''sync_direction'', 1),
       (attr_path (b_name b) ''sync_size'', n), (attr_path (b_name b) ''sync_offset'', off)]
      @ attrs_written (hist w)) \<and>
    (r2 = 0 \<longrightarrow> attrs_written (hist w2) =
      [(attr_path (b_name b) ''sync_for_cpu'', 1), (attr_path (b_name b) ''sync_direction'', 2),
       (attr_path (b_name b) ''sync_size'', n), (attr_path (b_name b) ''sync_offset'', off)]
      @ attrs_written (hist w1))"
  using to_device.sync_resources [OF assms(1)] to_cpu.sync_resources [OF assms(2)]
    to_device.sync_emits [OF assms(1)] to_cpu.sync_emits [OF assms(2)]
    to_device.sync_written [of b off n w w1] to_cpu.sync_written [of b off n w1 w2] assms
  by (auto intro: same_resources_trans emits_trans)

lemma sample_sync: "world_env w = sample_env [] \<Longrightarrow> fst (udmabuf_sync b off n dir kick w) = 0"
  by (simp add: udmabuf_sync_def attr_write_def sys_defs Let_def sample_env_def)

theorem hand_over_protocol_witness:
  "\<exists>w' :: world. attrs_written (hist w') =
    [(attr_path [] ''sync_for_cpu'', 1), (attr_path [] ''sync_direction'', 2),
     (attr_path [] ''sync_size'', 64), (attr_path [] ''sync_offset'', 0),
     (attr_path [] ''sync_for_device'', 1), (attr_path [] ''sync_direction'', 1),
     (attr_path [] ''sync_size'', 64), (attr_path [] ''sync_offset'', 0)]"
proof -
  obtain r1 w1 where 1: "udmabuf_sync_for_device udmabuf_zero 0 64 (start_world (sample_env [])) = (r1, w1)" by force
  obtain r2 w2 where 2: "udmabuf_sync_for_cpu udmabuf_zero 0 64 w1 = (r2, w2)" by force
  have e1: "world_env w1 = sample_env []" using to_device.sync_env [OF 1] by (simp add: start_world_def)
  have "r1 = 0" using sample_sync [of "start_world (sample_env [])" udmabuf_zero 0 64 1 "''sync_for_device''"] 1
    by (simp add: udmabuf_sync_for_device_def start_world_def)
  moreover have "r2 = 0" using sample_sync [OF e1, of udmabuf_zero 0 64 2 "''sync_for_cpu''"] 2
    by (simp add: udmabuf_sync_for_cpu_def)
  ultimately have "attrs_written (hist w2) =
      [(attr_path [] ''sync_for_cpu'', 1), (attr_path [] ''sync_direction'', 2),
       (attr_path [] ''sync_size'', 64), (attr_path [] ''sync_offset'', 0)] @ attrs_written (hist w1)"
    "attrs_written (hist w1) =
      [(attr_path [] ''sync_for_device'', 1), (attr_path [] ''sync_direction'', 1),
       (attr_path [] ''sync_size'', 64), (attr_path [] ''sync_offset'', 0)]"
    using hand_over_protocol [OF 1 2] by (simp_all only: udmabuf_zero_def udmabuf.simps start_world_def world.simps attrs_written.simps
        append_Nil2 simp_thms)
  then show ?thesis by - (rule exI [of _ w2], simp only: append_Cons append_Nil)
qed

section \<open>Opening and failing to open\<close>

text \<open>
  C31: A device or a buffer that fails to open, at whatever step, holds no descriptor, no
  mapping and no stream; one that opens holds exactly its descriptor and its mapping.
\<close>

theorem open_all_or_nothing:
  assumes "uio_open name w = ((ru, u), w1)" and "udmabuf_open bname w1 = ((rb, b), w2)"
  shows "open_fds (hist w1) = (if ru = 0 then {#u_fd u#} else {#}) + open_fds (hist w) \<and>
    mappings (hist w1) = (if ru = 0 then {#(u_regs u, u_map_size u)#} else {#}) + mappings (hist w) \<and>
    open_fds (hist w2) = (if rb = 0 then {#b_fd b#} else {#}) + open_fds (hist w1) \<and>
    mappings (hist w2) = (if rb = 0 then {#(b_mem b, b_size b)#} else {#}) + mappings (hist w1) \<and>
    open_files (hist w2) = open_files (hist w)"
  using uio_open_resources [OF assms(1)] udmabuf_open_resources [OF assms(2)]
  by (auto simp: same_resources_def split: if_splits)

theorem open_all_or_nothing_witness:
  "open_files (hist (snd (udmabuf_open ''x'' (snd (uio_open ''/dev/uio0'' (start_world (sample_env []))))))) = {#}"
proof -
  obtain ru u w1 where 1: "uio_open ''/dev/uio0'' (start_world (sample_env [])) = ((ru, u), w1)" by (metis prod.exhaust)
  obtain rb b w2 where 2: "udmabuf_open ''x'' w1 = ((rb, b), w2)" by (metis prod.exhaust)
  from open_all_or_nothing [OF 1 2] 1 2 show ?thesis by (simp add: start_world_def)
qed

end
