(* ===== verification/OJLS_Driver.thy ===== *)
theory OJLS_Driver
  imports OJLS_Checks
begin

text \<open>
  What the DMA driver and the hardware layer of the server promise to the request handlers:
  rings that cover their buffers, channels that follow them, waits that end and report what
  the descriptors said, a core that holds its dimensions, and a gate that opens as often as
  it was told.
\<close>

unbundle bit_operations_syntax

section \<open>Rings\<close>

text \<open>
  C9: A ring that \<open>axidma_ring_build\<close> builds covers its buffer. The engine that follows the
  chain from the first descriptor visits segments that are not empty, at most a chunk long,
  with the frame marks on the first and on the last of them only, and whose bytes are those
  of the buffer, each once and in order.
\<close>

theorem ring_covers_buffer:
  assumes "axidma_ring_build db off cap buf len chunk frame w = (Some ring, w')"
    and "0 < chunk" and "chunk \<le> AXIDMA_DESC_LEN_MASK" and "unat len < 2 ^ 58"
  shows "\<exists>segs. dma_walk (hist w') ring (nat (r_count ring)) (r_phys ring) (ring_tail ring) = Some segs \<and>
    concat (map seg_addrs segs) = map (\<lambda>j. buf + of_nat j) [0..<unat len] \<and>
    (\<forall>i < length segs. 0 < fst (snd (segs ! i)) \<and> fst (snd (segs ! i)) \<le> unat chunk \<and>
       snd (snd (segs ! i)) = (frame \<and> i = 0, frame \<and> Suc i = length segs))"
proof -
  note b = ring_build_some [OF assms(1,2,4)]
  have c: "0 < unat chunk" using assms(2) by (simp add: word_less_nat_alt)
  let ?segs = "ring_segs buf (unat len) (unat chunk) frame"
  have "0 < fst (snd (?segs ! i)) \<and> fst (snd (?segs ! i)) \<le> unat chunk \<and>
      snd (snd (?segs ! i)) = (frame \<and> i = 0, frame \<and> Suc i = length ?segs)" if "i < length ?segs" for i
    using that n_chunks_bounds(2) [OF c b(5)] c by (simp add: ring_segs_def)
  with ring_walk [OF assms] ring_segs_cover [OF c b(5)] show ?thesis by blast
qed

lemma sample_build:
  "\<exists>ring w'. axidma_ring_build (sample_buf 0x300000 0x8000 ''desc'') 0 0x4000 0x200000 0x5000 0x2000 True (start_world E) = (Some ring, w')"
proof -
  have "n_chunks 0x5000 0x2000 = 3" by (simp add: n_chunks_def)
  then have "ring_fits (sample_buf 0x300000 0x8000 ''desc'') 0 0x4000 (unat (0x5000 :: u64)) 0x2000"
    by (simp add: ring_fits_def sample_buf_def desc_size_def)
  then show ?thesis by (simp add: ring_build_exact Let_def)
qed

theorem ring_covers_buffer_witness:
  "\<exists>ring w' segs. axidma_ring_build (sample_buf 0x300000 0x8000 ''desc'') 0 0x4000 0x200000 0x5000 0x2000 True
     (start_world (sample_env [])) = (Some ring, w') \<and>
   dma_walk (hist w') ring (nat (r_count ring)) (r_phys ring) (ring_tail ring) = Some segs \<and>
   length (concat (map seg_addrs segs)) = 0x5000"
proof -
  obtain ring w' where b: "axidma_ring_build (sample_buf 0x300000 0x8000 ''desc'') 0 0x4000 0x200000 0x5000 0x2000 True
     (start_world (sample_env [])) = (Some ring, w')" using sample_build by blast
  have "(0x2000 :: u32) \<le> AXIDMA_DESC_LEN_MASK" by (simp add: consts_defs)
  from ring_covers_buffer [OF b _ this] obtain segs where
    "dma_walk (hist w') ring (nat (r_count ring)) (r_phys ring) (ring_tail ring) = Some segs"
    "concat (map seg_addrs segs) = map (\<lambda>j. 0x200000 + of_nat j) [0..<unat (0x5000 :: u64)]" by auto
  with b show ?thesis by (intro exI conjI) (assumption | simp)+
qed

text \<open>
  C27: \<open>axidma_ring_build\<close> succeeds just when there is something to transfer, the descriptor
  region is aligned to 64 bytes in the buffer and on the bus, and the descriptors that the
  length needs fit it. Refused, it stores nothing; the count of a ring it builds is the length
  divided by the chunk, rounded up, with none of the 64-bit arithmetic wrapping.
\<close>

theorem ring_build_iff_fits:
  assumes "0 < chunk" and "unat len < 2 ^ 58"
  shows "if 0 < unat len \<and> off AND 0x3F = 0 \<and> (b_phys db + ucast off) AND 0x3F = 0 \<and>
        (unat len + unat chunk - 1) div unat chunk * 64 \<le> unat cap
     then \<exists>ring w'. axidma_ring_build db off cap buf len chunk frame w = (Some ring, w') \<and>
       r_count ring = int ((unat len + unat chunk - 1) div unat chunk) \<and> r_desc ring = b_mem db + off \<and>
       r_phys ring = b_phys db + ucast off
     else axidma_ring_build db off cap buf len chunk frame w = (None, w)"
  using ring_build_exact [OF assms, of db off cap buf frame w]
  by (auto simp: ring_fits_def n_chunks_def desc_size_def built_ring_def Let_def)

theorem ring_build_iff_fits_witness:
  "axidma_ring_build (sample_buf 0x300000 0x8000 ''desc'') 0 128 0x200000 0x5000 0x2000 True (start_world (sample_env [])) =
     (None, start_world (sample_env []))"
  using ring_build_iff_fits [of "0x2000" "0x5000" 0 "sample_buf 0x300000 0x8000 ''desc''" 128 "0x200000" True "start_world (sample_env [])"]
  by simp



section \<open>Waits\<close>

text \<open>The last thing that happened is a reading of the clock that is past the deadline.\<close>

definition timed_out :: "int \<Rightarrow> world \<Rightarrow> bool" where
  "timed_out deadline w \<longleftrightarrow> (\<exists>s n h. hist w = EvClock s n # h \<and> deadline < s * 1000 + n div 1000000)"

lemma now_ms_late: "now_ms w = (t, w1) \<Longrightarrow> dl < t \<Longrightarrow> timed_out dl w1"
  by (auto simp: timed_out_def dest!: now_ms_log)

lemma wait_loop_late:
  assumes "c_loop body s w = Some (rc, w')"
    and "\<And>s w w'. body s w = Some (Inr (-2), w') \<Longrightarrow> timed_out dl w'"
  shows "rc = (-2 :: int) \<longrightarrow> timed_out dl w'"
  using assms(1)
  by (rule c_loop_inv [where I = "\<lambda>_ _. True" and Q = "\<lambda>a w'. a = -2 \<longrightarrow> timed_out dl w'"]) (auto intro: assms(2))

lemma wait_body_late: "wait_body d chan ring dl s w = Some (Inr (-2), w') \<Longrightarrow> timed_out dl w'"
  by (auto simp: wait_body_def wait_idle_def split: prod.splits if_splits option.splits Option.bind_splits
      dest: now_ms_late)

lemma wait_packets_body_late: "wait_packets_body d ring dl s w = Some (Inr (-2), w') \<Longrightarrow> timed_out dl w'"
  by (auto simp: wait_packets_body_def wait_idle_def split: prod.splits if_splits Option.bind_splits
      dest: now_ms_late)

lemma wait_late:
  assumes "axidma_wait d chan ring ms w = Some (-2, w')" and "now_ms w = (t, w1)"
  shows "timed_out (t + ms) w'"
proof -
  from assms have "c_loop (wait_body d chan ring (t + ms)) () w1 = Some (-2, w')" by (simp add: axidma_wait_def)
  from wait_loop_late [OF this wait_body_late] show ?thesis by simp
qed

lemma wait_packets_late:
  assumes "axidma_wait_packets d ring ms w = Some (-2, w')" and "now_ms w = (t, w1)"
  shows "timed_out (t + ms) w'"
proof -
  from assms have "c_loop (wait_packets_body d ring (t + ms)) () w1 = Some (-2, w')" by (simp add: axidma_wait_packets_def)
  from wait_loop_late [OF this wait_packets_body_late] show ?thesis by simp
qed

text \<open>A transfer of one descriptor that is over, on the sample board.\<close>

definition done_ring :: axidma_ring where
  "done_ring = rx_ring sample_hw 0x8000 AXIDMA_DESC_CHUNK"

lemma done_at_rest:
  "at_rest (start_world (board_env [] 3)) done_ring [0x8C000003]" "nat (r_count done_ring) = 1" "0 < r_count done_ring"
  "working_board (world_env (start_world (board_env [] 3))) sample_hw"
  "\<not> st_error 0x8C000003" "st_eof 0x8C000003" "st_done 0x8C000003"
proof -
  show "at_rest (start_world (board_env [] 3)) done_ring [0x8C000003]"
    unfolding done_ring_def using sample_descs [of "[]" 3 _ 1]
    by (intro rx_at_rest) (simp add: start_world_def)
qed (simp_all add: done_ring_def rx_ring_def built_ring_def n_chunks_def st_defs consts_defs start_world_def sample_board_works)



text \<open>
  C19: What \<open>axidma_wait_packets\<close> reports: 0 only after a round in which every descriptor of the
  ring was read without an error, none was complete without the end of its packet, and the
  last one was complete; -2 only past the deadline; otherwise -1.
\<close>

theorem wait_packets_reports:
  assumes "axidma_wait_packets d ring ms w = Some (rc, w')" and "now_ms w = (t, w1)"
  shows "rc \<in> {0, -1, -2} \<and> (rc = 0 \<longrightarrow> packets_seen d ring w') \<and> (rc = -2 \<longrightarrow> timed_out (t + ms) w') \<and>
    emits (hw_event (u_fd (dma_uio d))) w w'"
  using wait_packets_codes [OF assms(1)] wait_packets_seen [of d ring ms w w'] wait_packets_late [OF _ assms(2), of d ring ms w']
    axidma_wait_packets_after [OF assms(1) emits_refl] assms(1)
  by (intro conjI impI) auto

theorem wait_packets_reports_witness:
  "\<exists>w'. axidma_wait_packets (hw_dma sample_hw) done_ring 100 (start_world (board_env [] 3)) = Some (0, w') \<and>
     packets_seen (hw_dma sample_hw) done_ring w'"
proof -
  obtain w' where w': "axidma_wait_packets (hw_dma sample_hw) done_ring 100 (start_world (board_env [] 3)) = Some (0, w')"
    using wait_packets_ok [OF done_at_rest(4,1)] done_at_rest by auto
  obtain t w1 where "now_ms (start_world (board_env [] 3)) = (t, w1)" by force
  from wait_packets_reports [OF w' this] w' show ?thesis by simp
qed

text \<open>
  C24: The polling loops of the driver end. With a clock that goes on, the reset, both waits,
  the configuration of the core and the recovery come back, whatever the registers and the
  descriptors say and for any timeout; the waits need that the interrupt wait is interrupted
  only finitely often.
\<close>

theorem polls_return:
  assumes "clock_diverges (world_env w)" and "poll_intr_bound (world_env w) (u_fd (dma_uio (hw_dma hw))) k"
  shows "(\<exists>r w'. axidma_reset (hw_dma hw) w = Some (r, w')) \<and>
    (\<exists>r w'. axidma_wait (hw_dma hw) chan ring ms w = Some (r, w')) \<and>
    (\<exists>r w'. axidma_wait_packets (hw_dma hw) ring ms w = Some (r, w')) \<and>
    (\<exists>r w'. hw_configure hw wd ht w = Some (r, w')) \<and> (\<exists>r w'. hw_recover hw wd ht w = Some (r, w'))"
proof -
  have "\<exists>n. poll_intr_bound (world_env w) (u_fd (dma_uio (hw_dma hw))) n" using assms(2) by blast
  with hw_ops_return [OF assms(1)] hw_configure_returns [OF assms(1), of hw wd ht] hw_recover_returns [OF assms(1), of hw wd ht]
  show ?thesis by (simp add: returns_ex)
qed

theorem polls_return_witness:
  "\<exists>r w'. axidma_wait (hw_dma sample_hw) AXIDMA_S2MM (rx_ring sample_hw 0x8000 0x2000) 10000
     (start_world (sample_env [])) = Some (r, w')"
proof -
  have "world_env (start_world (sample_env [])) = sample_env []" by (simp add: start_world_def)
  with polls_return [of "start_world (sample_env [])" sample_hw 0 AXIDMA_S2MM "rx_ring sample_hw 0x8000 0x2000" 10000]
    sample_clock_diverges [of "[]"] sample_bounds [of "[]"] show ?thesis by simp
qed

section \<open>The core and the gate\<close>

text \<open>
  C32: After a configuration that reports success the core was given both dimensions, read back
  both of them unchanged, was told to apply them, and was seen idle after that; the reading of
  STATUS is the last thing done.
\<close>

theorem configure_holds_dims:
  assumes "hw_configure hw width height w = Some (0, w')"
  shows "\<exists>st es s n. st AND OJLS_STATUS_BUSY = 0 \<and>
    hist w' = EvRegRead (reg_addr (hw_regs hw) OJLS_REG_STATUS) st # es @
      [EvRegWrite (reg_addr (hw_regs hw) OJLS_REG_CTRL) OJLS_CTRL_APPLY,
       EvRegRead (reg_addr (hw_regs hw) OJLS_REG_HEIGHT) (ucast height),
       EvRegRead (reg_addr (hw_regs hw) OJLS_REG_WIDTH) (ucast width),
       EvRegWrite (reg_addr (hw_regs hw) OJLS_REG_HEIGHT) (ucast height),
       EvRegWrite (reg_addr (hw_regs hw) OJLS_REG_WIDTH) (ucast width), EvClock s n] @ hist w"
  using hw_configure_done [OF assms] unfolding dims_events_def by fastforce

theorem configure_holds_dims_witness:
  "\<exists>w'. hw_configure sample_hw 4 2 (start_world (board_env [] 3)) = Some (0, w') \<and>
     EvRegRead 0x10014 2 \<in> set (hist w')"
proof -
  have "map_option fst (hw_configure sample_hw 4 2 (start_world (board_env [] 3))) = Some 0" by code_simp
  then obtain w' where w': "hw_configure sample_hw 4 2 (start_world (board_env [] 3)) = Some (0, w')" by auto
  have "reg_addr (hw_regs sample_hw) OJLS_REG_HEIGHT = 0x10014" by code_simp
  with configure_holds_dims [OF w'] have "EvRegRead 0x10014 2 \<in> set (hist w')" by auto
  with w' show ?thesis by blast
qed

text \<open>
  C33: The threshold of the ready gate. For a percentage up to 100 the 32-bit arithmetic of the
  threshold does not wrap: it is that share of the 65536 draws, rounded down, all of them for
  100 and none for 0. \<open>gate_set\<close> reports success just when the register reads back as written.
\<close>

theorem gate_threshold:
  assumes "pct \<le> 100"
  shows "unat (gate_thresh pct) = unat pct * 65536 div 100 \<and> unat (gate_thresh pct) \<le> 65536 \<and>
    (unat (gate_thresh pct) = 65536 \<longleftrightarrow> pct = 100) \<and> (gate_thresh pct = 0 \<longleftrightarrow> pct = 0) \<and>
    (fst (gate_set hw pct w) = 0 \<longleftrightarrow>
       env_reg (world_env w) (EvRegWrite (reg_addr (hw_gate hw) READY_GATE_THRESH) (gate_thresh pct) # hist w)
         (reg_addr (hw_gate hw) READY_GATE_THRESH) = gate_thresh pct)"
proof -
  have u: "unat (gate_thresh pct) = unat pct * 65536 div 100" using assms by (rule gate_thresh_unat)
  have p: "unat pct \<le> 100" using assms by (simp add: word_le_nat_alt)
  have "gate_thresh pct = 0 \<longleftrightarrow> unat pct * 65536 div 100 = 0" using u by (simp add: unat_eq_0 [symmetric])
  also have "\<dots> \<longleftrightarrow> unat pct = 0" by (cases "unat pct") simp_all
  finally have z: "gate_thresh pct = 0 \<longleftrightarrow> pct = 0" by (simp add: unat_eq_0)
  have f: "unat (gate_thresh pct) = 65536 \<longleftrightarrow> unat pct = 100" using u p by auto
  then have f: "unat (gate_thresh pct) = 65536 \<longleftrightarrow> pct = 100" by (simp add: word_unat_eq_iff)
  have "fst (gate_set hw pct w) = 0 \<longleftrightarrow>
       env_reg (world_env w) (EvRegWrite (reg_addr (hw_gate hw) READY_GATE_THRESH) (gate_thresh pct) # hist w)
         (reg_addr (hw_gate hw) READY_GATE_THRESH) = gate_thresh pct"
    by (simp add: gate_set_def Let_def log_simps)
  with u z f p show ?thesis by (intro conjI) simp_all
qed

theorem gate_threshold_witness: "gate_thresh 50 = 32768"
proof -
  have "unat (gate_thresh 50) = unat (32768 :: u32)" using gate_threshold [of 50] by simp
  then show ?thesis by (simp only: word_unat_eq_iff)
qed

text \<open>
  The slot of a stream image is a whole number of pages, holds the worst case of the
  encoder (a quarter more than the pixels, and a page), and wastes less than a page on top of
  it, as long as this stays below 4 GiB.
\<close>

lemma slot_holds_worst_case:
  assumes "unat img + unat img div 4 + 8191 < 2 ^ 32"
  shows "unat (stream_slot_bytes img) mod 4096 = 0 \<and>
    unat img + unat img div 4 + 4096 \<le> unat (stream_slot_bytes img) \<and>
    unat (stream_slot_bytes img) < unat img + unat img div 4 + 4096 + 4096"
proof -
  let ?n = "unat img + unat img div 4 + 8191"
  have "?n = ?n div 4096 * 4096 + ?n mod 4096" "?n mod 4096 < 4096" by simp_all
  then show ?thesis unfolding slot_unat [OF assms] by (intro conjI) (simp, linarith+)
qed

section \<open>Opening the hardware\<close>

text \<open>
  C30: When \<open>hw_open\<close> reports success the program holds exactly the six descriptors and the six
  mappings of the hardware in addition to what it held; all of them are valid, the regions are
  the whole tx and rx buffers, and the limits read from the core fit the header: the bitness a
  byte, the dimensions 16 bits.
\<close>

theorem hw_open_holds:
  assumes "hw_open opt w = Some ((0, hw), w')" and "mmap_nonnull (world_env w)"
  shows "hw_up hw \<and> regions_ok hw \<and> holds_more (hw_fds hw) (hw_maps hw) w w' \<and>
    unat (hw_bitness hw) < 256 \<and> unat (hw_max_width hw) < 65536 \<and> unat (hw_max_height hw) < 65536"
  using assms by (rule hw_open_up)


text \<open>A board on which everything opens.\<close>

definition up_env :: env where
  "up_env = (sample_env [])\<lparr>env_reg := (\<lambda>h a. OJLS_ID_VALUE)\<rparr>"

definition up_options :: options where
  "up_options = default_options\<lparr>opt_regs_name := ''/dev/uio0'', opt_dma_name := ''/dev/uio1'', opt_gate_name := ''/dev/uio2''\<rparr>"

lemma up_uio: "world_env w = up_env \<Longrightarrow> take 5 nm = ''/dev/'' \<Longrightarrow>
    \<exists>u w'. uio_open nm w = ((0, u), w') \<and> world_env w' = up_env"
  by (simp add: uio_open_def sysfs_read_line_def sys_defs Let_def up_env_def sample_env_def map_failed_def)

lemma up_buf: "world_env w = up_env \<Longrightarrow> \<exists>b w'. udmabuf_open nm w = ((0, b), w') \<and> world_env w' = up_env"
  by (simp add: udmabuf_open_def udmabuf_sysfs_read_line_eq sysfs_read_line_def sys_defs Let_def up_env_def sample_env_def
      map_failed_def)

lemma up_reset:
  assumes "world_env w = up_env"
  shows "\<exists>w'. axidma_reset d w = Some (0, w') \<and> world_env w' = up_env"
proof -
  obtain t u where t: "now_ms w = (t, u)" by force
  let ?v = "uio_wr (dma_uio d) (AXIDMA_CR AXIDMA_S2MM) AXIDMA_CR_RESET
      (uio_wr (dma_uio d) (AXIDMA_CR AXIDMA_MM2S) AXIDMA_CR_RESET u)"
  have "world_env ?v = up_env" using now_ms_log [OF t] assms by (simp add: log_simps)
  then have "\<exists>x. reset_body d (t + 100) () ?v = Some (Inr 0, x) \<and> world_env x = up_env"
    by (simp add: reset_body_def reset_busy_def uio_rd_hist Let_def up_env_def consts_defs)
  with t show ?thesis by (auto simp: axidma_reset_def c_loop_Inr)
qed

lemma up_dma:
  assumes "world_env w = up_env" and "take 5 nm = ''/dev/''"
  shows "\<exists>d w'. axidma_open nm w = Some ((0, d), w') \<and> world_env w' = up_env"
proof -
  obtain u w1 where 1: "uio_open nm w = ((0, u), w1)" "world_env w1 = up_env" using up_uio [OF assms] by blast
  obtain w2 where 2: "axidma_reset \<lparr>dma_uio = u\<rparr> w1 = Some (0, w2)" "world_env w2 = up_env" using up_reset [OF 1(2)] by blast
  obtain r u3 w3 where 3: "uio_irq_enable u w2 = ((r, u3), w3)" by (metis prod.exhaust)
  have "world_env w3 = up_env" using emits_env [OF uio_irq_enable_emits [OF 3]] 2(2) by simp
  with 1 2 3 show ?thesis by (simp add: axidma_open_def)
qed

lemma up_run: "\<exists>hw w'. hw_open up_options (start_world up_env) = Some ((0, hw), w')"
proof -
  have names: "opt_regs_name up_options = ''/dev/uio0''" "opt_dma_name up_options = ''/dev/uio1''" "opt_gate_name up_options = ''/dev/uio2''"
    by (simp_all add: up_options_def)
  obtain u w1 where 1: "uio_open ''/dev/uio0'' (start_world up_env) = ((0, u), w1)" "world_env w1 = up_env"
    using up_uio [of "start_world up_env" "''/dev/uio0''"] by (auto simp: start_world_def)
  have rd: "\<exists>w'. uio_rd v off w = (OJLS_ID_VALUE, w') \<and> world_env w' = up_env" if "world_env w = up_env" for v off w
    using that by (simp add: uio_rd_hist Let_def up_env_def)
  obtain w2 where 2: "uio_rd u OJLS_REG_ID w1 = (OJLS_ID_VALUE, w2)" "world_env w2 = up_env" using rd [OF 1(2)] by blast
  obtain w3 where 3: "uio_rd u OJLS_REG_VERSION w2 = (OJLS_ID_VALUE, w3)" "world_env w3 = up_env" using rd [OF 2(2)] by blast
  obtain w4 where 4: "uio_rd u OJLS_REG_CAPS w3 = (OJLS_ID_VALUE, w4)" "world_env w4 = up_env" using rd [OF 3(2)] by blast
  obtain w5 where 5: "uio_rd u OJLS_REG_MAXDIM w4 = (OJLS_ID_VALUE, w5)" "world_env w5 = up_env" using rd [OF 4(2)] by blast
  obtain g w6 where 6: "uio_open ''/dev/uio2'' w5 = ((0, g), w6)" "world_env w6 = up_env"
    using up_uio [OF 5(2), of "''/dev/uio2''"] by auto
  obtain d w7 where 7: "axidma_open ''/dev/uio1'' w6 = Some ((0, d), w7)" "world_env w7 = up_env"
    using up_dma [OF 6(2), of "''/dev/uio1''"] by auto
  have bufs: "\<exists>hw w'. hw_open_bufs opt hw0 w = Some ((0, hw), w')" if "world_env w = up_env" for opt hw0 w
  proof -
    from up_buf [OF that] obtain b x where 1: "udmabuf_open (case opt_tx_buf opt of Some n \<Rightarrow> n | None \<Rightarrow> ''udmabuf-ojls-tx'') w = ((0, b), x)"
      "world_env x = up_env" by blast
    from up_buf [OF this(2)] obtain c y where 2: "udmabuf_open (case opt_rx_buf opt of Some n \<Rightarrow> n | None \<Rightarrow> ''udmabuf-ojls-rx'') x = ((0, c), y)"
      "world_env y = up_env" by blast
    from up_buf [OF this(2)] obtain e z where 3: "udmabuf_open (case opt_desc_buf opt of Some n \<Rightarrow> n | None \<Rightarrow> ''udmabuf-ojls-desc'') y = ((0, e), z)"
      by blast
    show ?thesis unfolding hw_open_bufs_def Let_def 1 2 3 case_prod_conv by simp
  qed
  show ?thesis
    using bufs [OF 7(2)] unfolding hw_open_def names Let_def 1 2 3 4 5 6 case_prod_conv by (simp add: 7)
qed

theorem hw_open_holds_witness:
  "\<exists>hw w'. hw_open up_options (start_world up_env) = Some ((0, hw), w') \<and> open_fds (hist w') = hw_fds hw"
proof -
  obtain hw w' where o: "hw_open up_options (start_world up_env) = Some ((0, hw), w')" using up_run by blast
  have "mmap_nonnull (world_env (start_world up_env))"
    by (simp add: mmap_nonnull_def up_env_def sample_env_def start_world_def null_ptr_def)
  from hw_open_holds [OF o this] have "open_fds (hist w') = hw_fds hw" by (simp add: holds_more_def start_world_def)
  with o show ?thesis by blast
qed

end
