(* ===== verification/OJLS_Limits.thy ===== *)
theory OJLS_Limits
  imports OJLS_Host OJLS_Session
begin

text \<open>
  Where the programs do less than their documentation says: how a connection ends on a request
  that is not of the protocol, numbers that wrap in the PGM reader, the paths that the client
  derives for its output, and an output file that fails to close.
\<close>

section \<open>A request with another magic number\<close>

text \<open>
  C35: A message that does not start with the magic number ends the connection. Whatever follows
  it on the stream is left there, the peer is told once, with an error header (or the part of it
  that it takes) that says so, and the result is -1 in every case.
\<close>

theorem bad_magic_drops:
  assumes "recv_full fd None OJLS_PROTO_HDR_LEN w = Some ((0, raw), w1)"
    and "h_magic (ojls_hdr_unpack raw) \<noteq> OJLS_PROTO_MAGIC"
    and "serve_body fd hw opt lb w = Some (r, w')"
  shows "r = Inr (-1, lb) \<and> rcvd fd w' = rcvd fd w @ raw \<and> length raw = 20 \<and>
    (\<exists>k \<le> 20. sent fd w' = sent fd w @ take k (hdr_bytes (error_hdr (ojls_hdr_unpack raw) OJLS_ST_BAD_MAGIC)))"
proof -
  let ?h = "hdr_bytes (error_hdr (ojls_hdr_unpack raw) OJLS_ST_BAD_MAGIC)"
  from assms obtain x where e: "send_error fd (ojls_hdr_unpack raw) OJLS_ST_BAD_MAGIC w1 = Some (x, w')" "r = Inr (-1, lb)"
    by (auto simp: serve_body_def Let_def split: Option.bind_splits)
  then have "send_full fd (Local ?h) (length ?h) w1 = Some (x, w')" by (simp add: send_error_def consts_defs)
  from srv.send_local [OF this] have "\<exists>k \<le> 20. sent fd w' = sent fd w1 @ take k ?h" by auto
  moreover have "rcvd fd w' = rcvd fd w1" using srv.send_rcvd e(1) unfolding send_error_def by blast
  moreover have "rcvd fd w1 = rcvd fd w @ raw" "sent fd w1 = sent fd w" using srv.recv_rcvd [OF assms(1)] srv.recv_sent [OF assms(1)] by blast+
  moreover have "length raw = 20" using srv.recv_ok [OF assms(1)] by (simp add: consts_defs)
  ultimately show ?thesis using e(2) by simp
qed

theorem bad_magic_drops_witness:
  "\<exists>w'. serve_body 5 hw_zero default_options (False, 0) (start_world (sample_env (replicate 30 0))) = Some (Inr (-1, False, 0), w') \<and>
     length (rcvd 5 w') = 20"
proof -
  let ?w = "start_world (sample_env (replicate 30 0))"
  have "map_option fst (recv_full 5 None OJLS_PROTO_HDR_LEN ?w) = Some (0, replicate 20 0)" by code_simp
  then obtain w1 where 1: "recv_full 5 None OJLS_PROTO_HDR_LEN ?w = Some ((0, replicate 20 0), w1)" by auto
  have 2: "h_magic (ojls_hdr_unpack (replicate 20 0)) \<noteq> OJLS_PROTO_MAGIC" by code_simp
  have "map_option (\<lambda>_. ()) (serve_body 5 hw_zero default_options (False, 0) ?w) = Some ()" by code_simp
  then obtain r w' where 3: "serve_body 5 hw_zero default_options (False, 0) ?w = Some (r, w')" by auto
  from bad_magic_drops [OF 1 2 3] 3 show ?thesis by (auto simp: start_world_def rcvd_def trace_def)
qed

section \<open>The PGM reader\<close>

text \<open>
  C40: A number in a PGM header is taken modulo 2 to the 64th: the width that is larger by that
  much is read as the same width, and passes the test for being at most 65535.
\<close>

theorem pgm_token_wraps:
  "pgm_token (dec (n + 2 ^ 64) @ 32 # rest) = pgm_token (dec n @ 32 # rest) \<and>
   pgm_token (dec (2 ^ 64 + 1) @ 32 # rest) = (Some 1, rest)"
proof -
  have s: "\<not> is_digit 32" by (simp add: is_digit_def)
  have z: "(of_nat (2 ^ 64) :: u64) = 0" by (simp add: word_unat_eq_iff unsigned_of_nat)
  then have "(of_nat (n + 2 ^ 64) :: u64) = of_nat n" "(of_nat (2 ^ 64 + 1) :: u64) = 1"
    by (simp_all only: of_nat_add of_nat_1 add_0_left add_0_right)
  then show ?thesis by (simp only: pgm_token_dec [OF s])
qed

section \<open>Paths\<close>

lemma strrchr_none: "c \<notin> set xs \<Longrightarrow> strrchr c xs = None"
  by (induction xs) auto

lemma strrchr_last: "c \<notin> set ys \<Longrightarrow> strrchr c (xs @ c # ys) = Some (length xs)"
  by (induction xs) (auto simp: strrchr_none)

text \<open>
  The output file of a stream depends on the last component of the input path only: images
  of the same name from two directories are written to the same file, the later one over the
  earlier one.
\<close>

lemma jls_path_collides:
  assumes "CHR ''/'' \<notin> set name"
  shows "jls_path dir (d1 @ CHR ''/'' # name) = jls_path dir (d2 @ CHR ''/'' # name)"
  using assms by (simp add: jls_path_def strrchr_last)

text \<open>
  The default output path of a single image is cut at the last dot of the whole path, also
  when that dot is part of a directory.
\<close>

lemma default_out_dots:
  "default_out ''img.pgm'' = ''img.jls'' \<and> default_out ''../img'' = ''..jls'' \<and> default_out ''v1.2/img'' = ''v1.jls''"
  by (intro conjI) code_simp+

section \<open>The output file\<close>

text \<open>
  A failure to close the output file of a single exchange is not noticed: the result is the
  same whatever \<open>fclose\<close>, which writes out what \<open>stdio\<close> still holds, reports.
\<close>

lemma write_output_ignores_close:
  "fst (write_output path data w) = fst (write_output path data (w\<lparr>world_env := (world_env w)\<lparr>env_fclose := f\<rparr>\<rparr>))"
  by (simp add: write_output_def sys_fopen_def sys_fwrite_def sys_fclose_def Let_def)

end
